theory Spec2Isabelle
  imports Complex_Main
begin

section \<open>Phase curve integration (phase_curve.py)\<close>

text \<open>
  A shallow embedding of \<^verbatim>\<open>wrap_phase_curve\<close> and \<^verbatim>\<open>calc_phase_curve\<close>.
  Python floats are read as real numbers, so every statement below is about exact
  arithmetic. Exceptions are values of a sum type: \<open>Inl\<close> carries the error.
\<close>

subsection \<open>Errors and arrays\<close>

text \<open>
  \<open>IndexError\<close>: the entry point's own error for a rank it does not accept, and Python's
  and numpy's for an index out of range. \<open>ValueError\<close>: numpy's, for arrays that neither
  pair up nor broadcast. \<open>LinAlgError\<close>: scipy's, when the interpolator cannot be fitted.
\<close>

datatype error = IndexError | ValueError | LinAlgError

definition bindE :: "error + 'a \<Rightarrow> ('a \<Rightarrow> error + 'b) \<Rightarrow> error + 'b" where
  "bindE m f = (case m of Inl e \<Rightarrow> Inl e | Inr x \<Rightarrow> f x)"

text \<open>A numpy array as its shape and its elements in row-major order.\<close>

record ndarray =
  shape :: "nat list"
  data :: "real list"

text \<open>\<^verbatim>\<open>xs[i]\<close> for a non-negative index: Python raises IndexError out of range.\<close>

definition py_index :: "'a list \<Rightarrow> nat \<Rightarrow> error + 'a" where
  "py_index xs i = (if i < length xs then Inr (xs ! i) else Inl IndexError)"

text \<open>
  An elementwise binary operation of numpy on two one-dimensional arrays: equal lengths
  pair up, a length-one operand is broadcast, anything else raises ValueError.
\<close>

definition np_binop :: "(real \<Rightarrow> real \<Rightarrow> real) \<Rightarrow> real list \<Rightarrow> real list \<Rightarrow> error + real list" where
  "np_binop f xs ys =
     (if length xs = length ys then Inr (map2 f xs ys)
      else if length xs = 1 then Inr (map (\<lambda>y. f (xs ! 0) y) ys)
      else if length ys = 1 then Inr (map (\<lambda>x. f x (ys ! 0)) xs)
      else Inl ValueError)"

subsection \<open>The quadrature grid (lines 85 to 91)\<close>

text \<open>\<^verbatim>\<open>np.linspace(start, stop, num)\<close>: \<open>num\<close> points, both ends included.\<close>

definition linspace :: "real \<Rightarrow> real \<Rightarrow> nat \<Rightarrow> real list" where
  "linspace start stop num =
     map (\<lambda>i. start + real i * ((stop - start) / real (num - 1))) [0..<num]"

text \<open>\<^verbatim>\<open>(a[1:] + a[:-1]) / 2.\<close>\<close>

definition midpoints :: "real list \<Rightarrow> real list" where
  "midpoints a = map2 (\<lambda>u v. (u + v) / 2) (tl a) (butlast a)"

text \<open>\<^verbatim>\<open>np.diff(a)\<close>: \<open>a[i+1] - a[i]\<close>.\<close>

definition np_diff :: "real list \<Rightarrow> real list" where
  "np_diff a = map2 (\<lambda>u v. u - v) (tl a) (butlast a)"

definition mu_p_grid_bord :: "real list" where
  "mu_p_grid_bord = rev (linspace 0 1 11)"

definition mu_p_mean :: "real list" where
  "mu_p_mean = midpoints mu_p_grid_bord"

definition del_mu_p :: "real list" where
  "del_mu_p = map uminus (np_diff mu_p_grid_bord)"

definition phi_p_grid_bord :: "real list" where
  "phi_p_grid_bord = linspace 0 (2 * pi) 11"

definition phi_p_mean :: "real list" where
  "phi_p_mean = midpoints phi_p_grid_bord"

definition del_phi_p :: "real list" where
  "del_phi_p = np_diff phi_p_grid_bord"

subsection \<open>The bracket lookup (lines 93 to 107)\<close>

text \<open>
  One pass of the body of the inner loop, for the quadrature centre \<open>m\<close> and the sample
  index \<open>jmu\<close>: the two lists grow together, or stay as they are when no branch fires.
  The body only runs for \<open>jmu < len(mus) - 1\<close>, so every read of \<open>mus\<close> is in range.
\<close>

definition lookup_step :: "real list \<Rightarrow> real \<Rightarrow> nat \<Rightarrow> bool list \<times> nat list \<Rightarrow> bool list \<times> nat list" where
  "lookup_step mus m jmu st =
     (case st of (do_intp, i_intps) \<Rightarrow>
        if m \<le> mus ! 0 then (do_intp @ [False], i_intps @ [0])
        else if m > mus ! (length mus - 1) then (do_intp @ [False], i_intps @ [length mus - 1])
        else if m > mus ! jmu \<and> m \<le> mus ! (jmu + 1) then (do_intp @ [True], i_intps @ [jmu])
        else (do_intp, i_intps))"

text \<open>\<^verbatim>\<open>for jmu in range(len(mus)-1)\<close>; the range is empty when \<open>mus\<close> has fewer than two entries.\<close>

definition inner_loop :: "real list \<Rightarrow> real \<Rightarrow> bool list \<times> nat list \<Rightarrow> bool list \<times> nat list" where
  "inner_loop mus m st = fold (lookup_step mus m) [0..<length mus - 1] st"

text \<open>\<^verbatim>\<open>for imu in range(len(mu_p_mean))\<close>, from two empty lists: \<open>(do_intp, i_intps)\<close>.\<close>

definition lookup_table :: "real list \<Rightarrow> bool list \<times> nat list" where
  "lookup_table mus =
     fold (\<lambda>imu st. inner_loop mus (mu_p_mean ! imu) st) [0..<length mu_p_mean] ([], [])"

subsection \<open>The rotation matrix (lines 109 to 111)\<close>

text \<open>A matrix is the list of its rows; \<open>dot\<close> is the matrix product of \<^verbatim>\<open>np.matrix.dot\<close>.\<close>

definition ncols :: "real list list \<Rightarrow> nat" where
  "ncols B = (case B of [] \<Rightarrow> 0 | r # _ \<Rightarrow> length r)"

definition dot :: "real list list \<Rightarrow> real list list \<Rightarrow> real list list" where
  "dot A B =
     map (\<lambda>row. map (\<lambda>j. sum_list (map2 (*) row (map (\<lambda>r. r ! j) B))) [0..<ncols B]) A"

definition axis_swap :: "real list list" where
  "axis_swap = [[0, 0, 1], [0, 1, 0], [-1, 0, 0]]"

definition rot_x :: "real \<Rightarrow> real list list" where
  "rot_x rot = [[1, 0, 0], [0, cos rot, - sin rot], [0, sin rot, cos rot]]"

definition rot_matrix :: "real \<Rightarrow> real list list" where
  "rot_matrix phase = (let rot = - phase * 2 * pi in dot axis_swap (rot_x rot))"

subsection \<open>One quadrature cell (lines 118 to 135)\<close>

text \<open>
  The interpolator instance is a function from a query point to the \<open>N \<times> D\<close> matrix
  \<^verbatim>\<open>interp[0]\<close> (wavelengths by mu bins), a list of \<open>N\<close> rows.
\<close>

type_synonym field = "real list \<Rightarrow> real list list"

text \<open>Lines 118 to 124: the direction of the cell, rotated into the body frame.\<close>

definition cell_point :: "real \<Rightarrow> nat \<Rightarrow> nat \<Rightarrow> real list" where
  "cell_point phase iphi itheta =
     (let x_p = cos (phi_p_mean ! iphi) * sqrt (1 - (mu_p_mean ! itheta)\<^sup>2);
          y_p = sin (phi_p_mean ! iphi) * sqrt (1 - (mu_p_mean ! itheta)\<^sup>2);
          z_p = mu_p_mean ! itheta;
          R = dot (rot_matrix phase) [[x_p], [y_p], [z_p]]
      in [R ! 0 ! 0, R ! 1 ! 0, R ! 2 ! 0])"

text \<open>\<^verbatim>\<open>interp[0,:,k]\<close>: numpy raises IndexError when \<open>k\<close> is not a mu bin of the array.\<close>

definition slice_mu :: "real list list \<Rightarrow> nat \<Rightarrow> error + real list" where
  "slice_mu interp k =
     (if list_all (\<lambda>row. k < length row) interp then Inr (map (\<lambda>row. row ! k) interp)
      else Inl IndexError)"

text \<open>
  Lines 127 to 133: the intensity used for the cell of index \<open>itheta\<close>. The two lists
  are read at \<open>itheta\<close>, as the source does.
\<close>

definition I_use :: "real list \<Rightarrow> bool list \<Rightarrow> nat list \<Rightarrow> real list list \<Rightarrow> nat \<Rightarrow> error + real list" where
  "I_use mus do_intp i_intps interp itheta =
     bindE (py_index do_intp itheta) (\<lambda>d.
       if d then
         bindE (py_index i_intps itheta) (\<lambda>i.
         bindE (slice_mu interp i) (\<lambda>I_small.
         bindE (slice_mu interp (i + 1)) (\<lambda>I_large.
         bindE (py_index mus (i + 1)) (\<lambda>mu_hi.
         bindE (py_index mus i) (\<lambda>mu_lo.
           Inr (map2 (\<lambda>s l. s + (l - s) / (mu_hi - mu_lo) * (mu_p_mean ! itheta - mu_lo))
                  I_small I_large))))))
       else
         bindE (py_index i_intps itheta) (\<lambda>i. slice_mu interp i))"

text \<open>Line 135: the contribution of one cell.\<close>

definition cell_dF :: "real list \<Rightarrow> bool list \<times> nat list \<Rightarrow> field \<Rightarrow> real \<Rightarrow> nat \<Rightarrow> nat \<Rightarrow> error + real list" where
  "cell_dF mus tab mu_rad_bas phase iphi itheta =
     bindE (I_use mus (fst tab) (snd tab) (mu_rad_bas (cell_point phase iphi itheta)) itheta)
       (\<lambda>I. Inr (map (\<lambda>v. v * (mu_p_mean ! itheta) * (del_mu_p ! itheta) * (del_phi_p ! iphi)) I))"

subsection \<open>calc_phase_curve\<close>

text \<open>Lines 117 to 136 for one \<open>iphi\<close>: the loop over \<open>itheta\<close>; an error ends the loop.\<close>

definition theta_loop :: "real list \<Rightarrow> bool list \<times> nat list \<Rightarrow> field \<Rightarrow> real \<Rightarrow> nat \<Rightarrow> error + real list \<Rightarrow> error + real list" where
  "theta_loop mus tab mu_rad_bas phase iphi acc =
     fold (\<lambda>itheta acc. bindE acc (\<lambda>flux_arr.
             bindE (cell_dF mus tab mu_rad_bas phase iphi itheta) (\<lambda>dF.
               np_binop (+) flux_arr dF)))
       [0..<length mu_p_mean] acc"

definition calc_phase_curve :: "real \<Rightarrow> real list \<Rightarrow> field \<Rightarrow> error + real list" where
  "calc_phase_curve phase mus mu_rad_bas =
     (let tab = lookup_table mus;
          Nlambda = length (mu_rad_bas [0, 0, 0]);
          flux_arr = replicate Nlambda 0
      in fold (\<lambda>iphi acc. theta_loop mus tab mu_rad_bas phase iphi acc)
           [0..<length phi_p_mean] (Inr flux_arr))"

subsection \<open>wrap_phase_curve\<close>

text \<open>Lines 29 to 41: a rank-2 array is flattened, a rank-1 array is kept, any other rank raises.\<close>

definition flatten_grid :: "ndarray \<Rightarrow> error + ndarray" where
  "flatten_grid a =
     (if length (shape a) = 2 then Inr (a\<lparr>shape := [shape a ! 0 * shape a ! 1]\<rparr>)
      else if length (shape a) = 1 then Inr a
      else Inl IndexError)"

text \<open>Lines 43 to 48: the same for the intensity, with ranks 4 and 3.\<close>

definition flatten_intensity :: "ndarray \<Rightarrow> error + ndarray" where
  "flatten_intensity a =
     (if length (shape a) = 4
      then Inr (a\<lparr>shape := [shape a ! 0 * shape a ! 1, shape a ! 2, shape a ! 3]\<rparr>)
      else if length (shape a) = 3 then Inr a
      else Inl IndexError)"

text \<open>Lines 29 to 48 together, in the order of the source.\<close>

definition format_input :: "ndarray \<Rightarrow> ndarray \<Rightarrow> ndarray \<Rightarrow> error + (ndarray \<times> ndarray \<times> ndarray)" where
  "format_input lon lat intensity =
     bindE (flatten_grid lon) (\<lambda>lon'.
     bindE (flatten_grid lat) (\<lambda>lat'.
     bindE (flatten_intensity intensity) (\<lambda>intensity'.
       Inr (lon', lat', intensity'))))"

text \<open>
  \<^verbatim>\<open>np.array([x, y, z]).T\<close>: the list of points, one row \<open>[x\<^sub>i, y\<^sub>i, z\<^sub>i]\<close> per sample. Three
  arrays of different lengths do not make a numeric array: ValueError.
\<close>

definition points_T :: "real list \<Rightarrow> real list \<Rightarrow> real list \<Rightarrow> error + real list list" where
  "points_T x y z =
     (if length x = length y \<and> length y = length z
      then Inr (map (\<lambda>i. [x ! i, y ! i, z ! i]) [0..<length x])
      else Inl ValueError)"

text \<open>The list comprehension of line 61: the first error ends it.\<close>

fun mapE :: "('a \<Rightarrow> error + 'b) \<Rightarrow> 'a list \<Rightarrow> error + 'b list" where
  "mapE f [] = Inr []"
| "mapE f (x # xs) = bindE (f x) (\<lambda>y. bindE (mapE f xs) (\<lambda>ys. Inr (y # ys)))"

text \<open>
  \<open>RBFInterpolator\<close> is scipy's: it is a parameter here, given the points, the flattened
  intensity and the smoothing, and returning the interpolator instance or an error of
  its own. Lines 29 to 58: from the input arrays to the interpolator instance.
\<close>

definition build_interpolator ::
  "(real list list \<Rightarrow> ndarray \<Rightarrow> real \<Rightarrow> error + field) \<Rightarrow>
   ndarray \<Rightarrow> ndarray \<Rightarrow> ndarray \<Rightarrow> error + field" where
  "build_interpolator RBFInterpolator lon lat intensity =
     bindE (format_input lon lat intensity) (\<lambda>(lon', lat', intensity').
       let phi = map (\<lambda>l. l / 180 * pi) (data lon');
           theta = map (\<lambda>l. (l + 90) / 180 * pi) (data lat')
       in
       bindE (np_binop (*) (map cos phi) (map sin theta)) (\<lambda>x.
       bindE (np_binop (*) (map sin phi) (map sin theta)) (\<lambda>y.
       let z = map cos theta in
       bindE (points_T x y z) (\<lambda>pts.
         RBFInterpolator pts intensity' (1 / 10)))))"

text \<open>Lines 61 to 63: one row per phase, in the order of \<open>phases\<close>.\<close>

definition wrap_phase_curve ::
  "(real list list \<Rightarrow> ndarray \<Rightarrow> real \<Rightarrow> error + field) \<Rightarrow>
   real list \<Rightarrow> ndarray \<Rightarrow> ndarray \<Rightarrow> real list \<Rightarrow> ndarray \<Rightarrow> error + real list list" where
  "wrap_phase_curve RBFInterpolator phases lon lat mus intensity =
     bindE (build_interpolator RBFInterpolator lon lat intensity) (\<lambda>mu_rad_bas.
       mapE (\<lambda>phase. calc_phase_curve phase mus mu_rad_bas) phases)"

text \<open>
  A stand-in for the interpolator, to run the entry point on concrete inputs: it checks,
  as scipy does, that there is one intensity block per point, and answers every query
  with the first sample's block.
\<close>

definition first_sample_field :: "real list list \<Rightarrow> ndarray \<Rightarrow> real \<Rightarrow> error + field" where
  "first_sample_field pts d smoothing =
     (if length (shape d) = 3 \<and> shape d ! 0 = length pts \<and> 0 < length pts
      then Inr (\<lambda>p. map (\<lambda>n. map (\<lambda>k. data d ! (n * (shape d ! 2) + k)) [0..<shape d ! 2])
                       [0..<shape d ! 1])
      else Inl ValueError)"

text \<open>
  A second stand-in, whose answer depends on the direction: one on the side of the
  positive first coordinate, two on the other side, in every wavelength and mu bin.
\<close>

definition two_faced_field :: "real list list \<Rightarrow> ndarray \<Rightarrow> real \<Rightarrow> error + field" where
  "two_faced_field pts d smoothing =
     (if length (shape d) = 3 \<and> shape d ! 0 = length pts \<and> 0 < length pts
      then Inr (\<lambda>p. replicate (shape d ! 1) (replicate (shape d ! 2) (if 0 < p ! 0 then 1 else 2)))
      else Inl ValueError)"

subsection \<open>Notions used to state the properties\<close>

text \<open>
  What the inner loop appends for the centre \<open>m\<close> at the sample index \<open>jmu\<close>, as a list
  of pairs (flag, index); \<open>entries\<close> collects them over the inner loop and
  \<open>table_entries\<close> over all centres.
\<close>

definition hits :: "real list \<Rightarrow> real \<Rightarrow> nat \<Rightarrow> (bool \<times> nat) list" where
  "hits mus m jmu =
     (if m \<le> mus ! 0 then [(False, 0)]
      else if m > mus ! (length mus - 1) then [(False, length mus - 1)]
      else if m > mus ! jmu \<and> m \<le> mus ! (jmu + 1) then [(True, jmu)]
      else [])"

definition entries :: "real list \<Rightarrow> real \<Rightarrow> (bool \<times> nat) list" where
  "entries mus m = concat (map (hits mus m) [0..<length mus - 1])"

definition table_entries :: "real list \<Rightarrow> (bool \<times> nat) list" where
  "table_entries mus =
     concat (map (\<lambda>imu. entries mus (mu_p_mean ! imu)) [0..<length mu_p_mean])"

text \<open>Every answer of the field is an \<open>N \<times> D\<close> matrix.\<close>

definition field_shape :: "field \<Rightarrow> nat \<Rightarrow> nat \<Rightarrow> bool" where
  "field_shape f N D \<longleftrightarrow> (\<forall>p. length (f p) = N \<and> list_all (\<lambda>row. length row = D) (f p))"

text \<open>
  The sum over all quadrature cells of mu centre times mu width times azimuth width, in
  the order of the two loops.
\<close>

definition hemisphere_constant :: real where
  "hemisphere_constant =
     (\<Sum>iphi\<leftarrow>[0..<length phi_p_mean]. \<Sum>itheta\<leftarrow>[0..<length mu_p_mean].
        mu_p_mean ! itheta * del_mu_p ! itheta * del_phi_p ! iphi)"

text \<open>The axes of the intensity tensor: points (one or two axes), wavelengths, mu bins.\<close>

definition wavelength_dim :: "ndarray \<Rightarrow> nat" where
  "wavelength_dim a = shape a ! (length (shape a) - 2)"

definition mu_dim :: "ndarray \<Rightarrow> nat" where
  "mu_dim a = shape a ! (length (shape a) - 1)"

definition n_points :: "ndarray \<Rightarrow> nat" where
  "n_points a = prod_list (take (length (shape a) - 2) (shape a))"

text \<open>The ranks the entry point accepts.\<close>

definition accepted_ranks :: "ndarray \<Rightarrow> ndarray \<Rightarrow> ndarray \<Rightarrow> bool" where
  "accepted_ranks lon lat intensity \<longleftrightarrow>
     (length (shape lon) = 1 \<or> length (shape lon) = 2) \<and>
     (length (shape lat) = 1 \<or> length (shape lat) = 2) \<and>
     (length (shape intensity) = 3 \<or> length (shape intensity) = 4)"

text \<open>The intensity as the entry point flattens it: points, wavelengths, mu bins.\<close>

definition flat :: "ndarray \<Rightarrow> ndarray" where
  "flat a = a\<lparr>shape := [n_points a, wavelength_dim a, mu_dim a]\<rparr>"

text \<open>
  Valid shapes: accepted ranks, as many longitudes and latitudes as the intensity has
  surface points (at least one), an intensity with as many elements as its shape says,
  and one mu value per mu bin, at least two of them. A valid input has valid shapes and
  strictly increasing mu values.
\<close>

definition valid_shapes :: "ndarray \<Rightarrow> ndarray \<Rightarrow> real list \<Rightarrow> ndarray \<Rightarrow> bool" where
  "valid_shapes lon lat mus intensity \<longleftrightarrow>
     (length (shape lon) = 1 \<or> length (shape lon) = 2) \<and>
     (length (shape lat) = 1 \<or> length (shape lat) = 2) \<and>
     (length (shape intensity) = 3 \<or> length (shape intensity) = 4) \<and>
     length (data lon) = n_points intensity \<and>
     length (data lat) = n_points intensity \<and>
     0 < n_points intensity \<and>
     length (data intensity) = prod_list (shape intensity) \<and>
     length mus = mu_dim intensity \<and>
     2 \<le> length mus"

definition valid_input :: "ndarray \<Rightarrow> ndarray \<Rightarrow> real list \<Rightarrow> ndarray \<Rightarrow> bool" where
  "valid_input lon lat mus intensity \<longleftrightarrow>
     valid_shapes lon lat mus intensity \<and> sorted_wrt (<) mus"

text \<open>
  What is assumed of the interpolator: given one intensity block per point, it is built,
  and it answers every query with a matrix of the blocks' shape.
\<close>

definition fits_samples :: "(real list list \<Rightarrow> ndarray \<Rightarrow> real \<Rightarrow> error + field) \<Rightarrow> bool" where
  "fits_samples RBFInterpolator \<longleftrightarrow>
     (\<forall>pts d s. length (shape d) = 3 \<and> shape d ! 0 = length pts \<and> 0 < length pts \<longrightarrow>
        (\<exists>f. RBFInterpolator pts d s = Inr f \<and> field_shape f (shape d ! 1) (shape d ! 2)))"


text \<open>Exchanging two entries of a list.\<close>

definition swap :: "nat \<Rightarrow> nat \<Rightarrow> 'a list \<Rightarrow> 'a list" where
  "swap i j xs = xs[i := xs ! j, j := xs ! i]"

subsection \<open>Concrete inputs\<close>

text \<open>
  A \<open>2 \<times> 2\<close> grid of surface points with one wavelength and three mu bins, every
  intensity equal to one.
\<close>

definition grid_lon :: ndarray where
  "grid_lon = \<lparr>shape = [2, 2], data = [0, 90, 0, 90]\<rparr>"

definition grid_lat :: ndarray where
  "grid_lat = \<lparr>shape = [2, 2], data = [-45, -45, 45, 45]\<rparr>"

definition grid_intensity :: ndarray where
  "grid_intensity = \<lparr>shape = [2, 2, 1, 3], data = replicate 12 1\<rparr>"

text \<open>Three mu values below most quadrature centres, and the same values out of order.\<close>

definition low_mus :: "real list" where
  "low_mus = [1 / 10, 2 / 10, 3 / 10]"


text \<open>A single mu value, and the grid intensity with a single mu bin.\<close>

definition one_mu :: "real list" where
  "one_mu = [1 / 2]"

definition one_bin_intensity :: ndarray where
  "one_bin_intensity = \<lparr>shape = [2, 2, 1, 1], data = replicate 4 1\<rparr>"

text \<open>One longitude against four latitudes and four intensity blocks.\<close>

definition single_lon :: ndarray where
  "single_lon = \<lparr>shape = [1], data = [45]\<rparr>"

definition four_lat :: ndarray where
  "four_lat = \<lparr>shape = [4], data = [-60, -30, 30, 60]\<rparr>"

definition four_intensity :: ndarray where
  "four_intensity = \<lparr>shape = [4, 1, 3], data = replicate 12 1\<rparr>"

text \<open>A longitude array of rank three.\<close>

definition cube_lon :: ndarray where
  "cube_lon = \<lparr>shape = [1, 2, 2], data = [0, 90, 0, 90]\<rparr>"

text \<open>One wavelength whose intensity in the three mu bins is 10, 20 and 30: linear in mu.\<close>

definition linear_interp :: "real list list" where
  "linear_interp = [[10, 20, 30]]"

section \<open>Properties\<close>

subsection \<open>The lookup lists as explicit entries\<close>

lemma lookup_step_hits:
  "lookup_step mus m jmu st = (fst st @ map fst (hits mus m jmu), snd st @ map snd (hits mus m jmu))"
  by (cases st) (simp add: lookup_step_def hits_def)

lemma fold_lookup_step:
  "fold (lookup_step mus m) js st =
     (fst st @ map fst (concat (map (hits mus m) js)), snd st @ map snd (concat (map (hits mus m) js)))"
proof (induction js arbitrary: st)
  case Nil
  then show ?case by simp
next
  case (Cons j js)
  have "fold (lookup_step mus m) (j # js) st = fold (lookup_step mus m) js (lookup_step mus m j st)"
    by simp
  also have "\<dots> = (fst (lookup_step mus m j st) @ map fst (concat (map (hits mus m) js)),
                    snd (lookup_step mus m j st) @ map snd (concat (map (hits mus m) js)))"
    by (rule Cons.IH)
  finally show ?case unfolding lookup_step_hits[of mus m j st] by simp
qed

lemma inner_loop_entries:
  "inner_loop mus m st = (fst st @ map fst (entries mus m), snd st @ map snd (entries mus m))"
  by (simp add: inner_loop_def entries_def fold_lookup_step)

lemma fold_inner_loop:
  "fold (\<lambda>imu st. inner_loop mus (g imu) st) is st =
     (fst st @ map fst (concat (map (\<lambda>imu. entries mus (g imu)) is)),
      snd st @ map snd (concat (map (\<lambda>imu. entries mus (g imu)) is)))"
proof (induction "is" arbitrary: st)
  case Nil
  then show ?case by simp
next
  case (Cons i "is")
  have "fold (\<lambda>imu st. inner_loop mus (g imu) st) (i # is) st =
          fold (\<lambda>imu st. inner_loop mus (g imu) st) is (inner_loop mus (g i) st)"
    by simp
  also have "\<dots> = (fst (inner_loop mus (g i) st) @ map fst (concat (map (\<lambda>imu. entries mus (g imu)) is)),
                    snd (inner_loop mus (g i) st) @ map snd (concat (map (\<lambda>imu. entries mus (g imu)) is)))"
    by (rule Cons.IH)
  finally show ?case unfolding inner_loop_entries[of mus "g i" st] by simp
qed

lemma lookup_table_entries:
  "lookup_table mus = (map fst (table_entries mus), map snd (table_entries mus))"
  by (simp add: lookup_table_def table_entries_def fold_inner_loop)

text \<open>A bracket exists between a value below and a value not below.\<close>

lemma bracket_exists:
  fixes mus :: "real list"
  assumes "mus ! 0 < m" "m \<le> mus ! n"
  shows "\<exists>j<n. mus ! j < m \<and> m \<le> mus ! (j + 1)"
proof (rule ccontr)
  assume no: "\<not> (\<exists>j<n. mus ! j < m \<and> m \<le> mus ! (j + 1))"
  have "k \<le> n \<Longrightarrow> mus ! k < m" for k
  proof (induction k)
    case 0
    then show ?case using assms(1) by simp
  next
    case (Suc k)
    then have k: "mus ! k < m" "k < n" by simp_all
    from no k(2) have "\<not> (mus ! k < m \<and> m \<le> mus ! (k + 1))" by blast
    with k(1) show ?case by simp
  qed
  then have "mus ! n < m" by simp
  with assms(2) show False by simp
qed

lemma hits_in_entries:
  assumes "j < length mus - 1" "e \<in> set (hits mus m j)"
  shows "e \<in> set (entries mus m)"
  using assms by (auto simp: entries_def)

lemma entries_nonempty:
  assumes "2 \<le> length mus"
  shows "entries mus m \<noteq> []"
proof -
  have n: "0 < length mus - 1" using assms by simp
  consider "m \<le> mus ! 0" | "\<not> m \<le> mus ! 0" "m > mus ! (length mus - 1)"
    | "mus ! 0 < m" "m \<le> mus ! (length mus - 1)" by linarith
  then obtain j e where "j < length mus - 1" "e \<in> set (hits mus m j)"
  proof cases
    case 1
    then have "(False, 0) \<in> set (hits mus m 0)" by (simp add: hits_def)
    with n that show ?thesis by blast
  next
    case 2
    then have "(False, length mus - 1) \<in> set (hits mus m 0)" by (simp add: hits_def)
    with n that show ?thesis by blast
  next
    case 3
    from bracket_exists[OF 3] obtain j where j: "j < length mus - 1" "mus ! j < m" "m \<le> mus ! (j + 1)"
      by blast
    with 3 have "(True, j) \<in> set (hits mus m j)" by (simp add: hits_def)
    with j that show ?thesis by blast
  qed
  then have "e \<in> set (entries mus m)" by (rule hits_in_entries)
  then show ?thesis by auto
qed

lemma length_concat_ge:
  assumes "\<And>x. x \<in> set xs \<Longrightarrow> g x \<noteq> []"
  shows "length xs \<le> length (concat (map g xs))"
  using assms
proof (induction xs)
  case Nil
  then show ?case by simp
next
  case (Cons x xs)
  then have "g x \<noteq> []" by simp
  then have "1 \<le> length (g x)" by (cases "g x") simp_all
  with Cons show ?case by simp
qed

lemma upt11: "[0..<11] = [0,1,2,3,4,5,6,7,8,9,10::nat]"
  by code_simp
lemma upt10: "[0..<10] = [0,1,2,3,4,5,6,7,8,9::nat]"
  by code_simp

lemma mu_p_grid_bord_eq: "mu_p_grid_bord = [1, 9/10, 8/10, 7/10, 6/10, 5/10, 4/10, 3/10, 2/10, 1/10, 0]"
  by (simp add: mu_p_grid_bord_def linspace_def upt11)

lemma mu_p_mean_eq: "mu_p_mean = [95/100, 85/100, 75/100, 65/100, 55/100, 45/100, 35/100, 25/100, 15/100, 5/100]"
  by (simp add: mu_p_mean_def midpoints_def mu_p_grid_bord_eq)

lemma length_mu_p_mean: "length mu_p_mean = 10"
  by (simp add: mu_p_mean_eq)

lemma table_entries_length:
  assumes "2 \<le> length mus"
  shows "10 \<le> length (table_entries mus)"
proof -
  have "length [0..<length mu_p_mean] \<le> length (table_entries mus)"
    unfolding table_entries_def
    by (rule length_concat_ge) (rule entries_nonempty[OF assms])
  then show ?thesis by (simp add: length_mu_p_mean)
qed

lemma entries_bounds:
  assumes "2 \<le> length mus" "(d, i) \<in> set (entries mus m)"
  shows "i < length mus \<and> (d \<longrightarrow> i + 1 < length mus)"
proof -
  from assms(2) obtain j where "j < length mus - 1" "(d, i) \<in> set (hits mus m j)"
    by (auto simp: entries_def)
  with assms(1) show ?thesis
    by (auto simp: hits_def split: if_splits)
qed

lemma table_entries_bounds:
  assumes "2 \<le> length mus" "(d, i) \<in> set (table_entries mus)"
  shows "i < length mus \<and> (d \<longrightarrow> i + 1 < length mus)"
  using assms entries_bounds by (auto simp: table_entries_def)

subsection \<open>What one centre appends\<close>

lemma concat_map_const:
  assumes "\<And>i. i \<in> set xs \<Longrightarrow> g i = [e]"
  shows "concat (map g xs) = replicate (length xs) e"
  using assms by (induction xs) simp_all

lemma concat_map_empty:
  assumes "\<And>i. i \<in> set xs \<Longrightarrow> g i = []"
  shows "concat (map g xs) = []"
  using assms by (induction xs) simp_all

lemma concat_map_single:
  assumes "j < n" "\<And>i. i < n \<Longrightarrow> i \<noteq> j \<Longrightarrow> g i = []"
  shows "concat (map g [0..<n]) = g j"
proof -
  have split: "[0..<n] = [0..<j] @ j # [Suc j..<n]"
  proof -
    have "[0..<n] = [0..<j] @ [j..<n]"
      using assms(1) upt_add_eq_append[of 0 j "n - j"] by simp
    also have "[j..<n] = j # [Suc j..<n]"
      using assms(1) by (rule upt_conv_Cons)
    finally show ?thesis .
  qed
  have a: "concat (map g [0..<j]) = []"
    by (rule concat_map_empty) (use assms in auto)
  have b: "concat (map g [Suc j..<n]) = []"
    by (rule concat_map_empty) (use assms in auto)
  show ?thesis unfolding split by (simp add: a b)
qed

text \<open>A clamped centre appends one entry per pass of the inner loop.\<close>

lemma entries_clamped_low:
  assumes "m \<le> mus ! 0"
  shows "entries mus m = replicate (length mus - 1) (False, 0)"
proof -
  have "concat (map (hits mus m) [0..<length mus - 1]) = replicate (length [0..<length mus - 1]) (False, 0)"
    by (rule concat_map_const) (simp add: hits_def assms)
  then show ?thesis by (simp add: entries_def)
qed

lemma entries_clamped_high:
  assumes "\<not> m \<le> mus ! 0" "m > mus ! (length mus - 1)"
  shows "entries mus m = replicate (length mus - 1) (False, length mus - 1)"
proof -
  have "concat (map (hits mus m) [0..<length mus - 1]) =
          replicate (length [0..<length mus - 1]) (False, length mus - 1)"
    by (rule concat_map_const) (use assms in \<open>simp add: hits_def\<close>)
  then show ?thesis by (simp add: entries_def)
qed

text \<open>An interior centre of strictly increasing mus appends its bracket, once.\<close>

lemma entries_interior:
  assumes "sorted_wrt (<) mus" "mus ! 0 < m" "m \<le> mus ! (length mus - 1)"
    and "j < length mus - 1" "mus ! j < m" "m \<le> mus ! (j + 1)"
  shows "entries mus m = [(True, j)]"
proof -
  have other: "hits mus m i = []" if "i < length mus - 1" "i \<noteq> j" for i
  proof -
    have "\<not> (mus ! i < m \<and> m \<le> mus ! (i + 1))"
    proof (cases "i < j")
      case True
      then have "i + 1 \<le> j" by simp
      then have "mus ! (i + 1) \<le> mus ! j"
        using assms(1,4) by (cases "i + 1 = j") (auto simp: sorted_wrt_iff_nth_less less_imp_le)
      with assms(5) show ?thesis by simp
    next
      case False
      with that(2) have "j + 1 \<le> i" by simp
      then have "mus ! (j + 1) \<le> mus ! i"
        using assms(1) that(1) by (cases "j + 1 = i") (auto simp: sorted_wrt_iff_nth_less less_imp_le)
      with assms(6) show ?thesis by simp
    qed
    with assms(2,3) show ?thesis by (auto simp: hits_def)
  qed
  have "hits mus m j = [(True, j)]"
    using assms(2,3,5,6) by (simp add: hits_def)
  moreover have "concat (map (hits mus m) [0..<length mus - 1]) = hits mus m j"
    by (rule concat_map_single[OF assms(4)]) (rule other)
  ultimately show ?thesis by (simp add: entries_def)
qed

subsection \<open>When the lists are indexed by the centre\<close>

lemma concat_map_replicate:
  assumes "\<And>x. x \<in> set xs \<Longrightarrow> g x = replicate n e"
  shows "concat (map g xs) = replicate (length xs * n) e"
  using assms by (induction xs) (simp_all add: replicate_add)

lemma entries_two_mus:
  assumes "length mus = 2"
  shows "length (entries mus m) = 1"
proof -
  have "entries mus m = hits mus m 0"
    using assms by (simp add: entries_def)
  moreover have "length (hits mus m 0) = 1"
    using assms by (auto simp: hits_def)
  ultimately show ?thesis by simp
qed

lemma concat_singletons_nth:
  assumes "\<And>x. x \<in> set xs \<Longrightarrow> length (g x) = 1" "i < length xs"
  shows "concat (map g xs) ! i = hd (g (xs ! i))"
  using assms
proof (induction xs arbitrary: i)
  case Nil
  then show ?case by simp
next
  case (Cons x xs)
  then have "length (g x) = 1" by simp
  then obtain e where e: "g x = [e]" by (cases "g x") simp_all
  show ?case
  proof (cases i)
    case 0
    then show ?thesis by (simp add: e)
  next
    case (Suc k)
    with Cons.prems have "k < length xs" by simp
    with Cons.IH Cons.prems(1) have "concat (map g xs) ! k = hd (g (xs ! k))" by simp
    with Suc show ?thesis by (simp add: e)
  qed
qed

text \<open>
  Centres in descending order, none above the largest sample mu: the entry read at the
  position of a centre is the first entry that centre appended.
\<close>

lemma descending_centres_aligned:
  assumes "sorted_wrt (<) mus" "2 \<le> length mus"
    and "sorted_wrt (>) ms" "\<And>m. m \<in> set ms \<Longrightarrow> m \<le> mus ! (length mus - 1)"
    and "i < length ms"
  shows "concat (map (entries mus) ms) ! i = hd (entries mus (ms ! i))"
  using assms(3,4,5)
proof (induction ms arbitrary: i)
  case Nil
  then show ?case by simp
next
  case (Cons m ms)
  have D: "0 < length mus - 1" using assms(2) by simp
  show ?case
  proof (cases "m \<le> mus ! 0")
    case True
    have low: "entries mus x = replicate (length mus - 1) (False, 0)" if "x \<in> set (m # ms)" for x
    proof -
      have "x \<le> m" using that Cons.prems(1) by auto
      with True have "x \<le> mus ! 0" by simp
      then show ?thesis by (rule entries_clamped_low)
    qed
    have c: "concat (map (entries mus) (m # ms)) =
               replicate (length (m # ms) * (length mus - 1)) (False, 0)"
      by (rule concat_map_replicate) (rule low)
    have "i < length (m # ms) * (length mus - 1)"
    proof -
      have "length (m # ms) * 1 \<le> length (m # ms) * (length mus - 1)"
        using D by (intro mult_le_mono2) simp
      with Cons.prems(3) show ?thesis by simp
    qed
    then have "concat (map (entries mus) (m # ms)) ! i = (False, 0)"
      unfolding c by simp
    moreover have "hd (entries mus ((m # ms) ! i)) = (False, 0)"
    proof -
      have "(m # ms) ! i \<in> set (m # ms)" using Cons.prems(3) by (rule nth_mem)
      then have "entries mus ((m # ms) ! i) = replicate (length mus - 1) (False, 0)" by (rule low)
      then show ?thesis using D by (simp add: hd_replicate)
    qed
    ultimately show ?thesis by simp
  next
    case False
    then have lo: "mus ! 0 < m" by simp
    have hi: "m \<le> mus ! (length mus - 1)" using Cons.prems(2) by simp
    obtain j where j: "j < length mus - 1" "mus ! j < m" "m \<le> mus ! (j + 1)"
      using bracket_exists[OF lo hi] by blast
    have e: "entries mus m = [(True, j)]"
      by (rule entries_interior[OF assms(1) lo hi j])
    show ?thesis
    proof (cases i)
      case 0
      then show ?thesis by (simp add: e)
    next
      case (Suc k)
      have "concat (map (entries mus) ms) ! k = hd (entries mus (ms ! k))"
        using Cons.IH[of k] Cons.prems Suc by simp
      with Suc show ?thesis by (simp add: e)
    qed
  qed
qed

lemma table_entries_concat: "table_entries mus = concat (map (entries mus) mu_p_mean)"
proof -
  have "map (\<lambda>imu. entries mus (mu_p_mean ! imu)) [0..<length mu_p_mean] =
        map (entries mus) (map ((!) mu_p_mean) [0..<length mu_p_mean])"
    by simp
  then show ?thesis unfolding table_entries_def map_nth by simp
qed

lemma mu_p_mean_descending: "sorted_wrt (>) mu_p_mean"
  by (simp add: mu_p_mean_eq)

lemma mu_p_mean_le_first:
  assumes "m \<in> set mu_p_mean"
  shows "m \<le> mu_p_mean ! 0"
  using assms by (auto simp: mu_p_mean_eq)

text \<open>
  The lists are indexed by the centre when there are exactly two sample mus, or when no
  centre lies above the largest sample mu.
\<close>

lemma table_entries_aligned:
  assumes "sorted_wrt (<) mus" "2 \<le> length mus"
    and "length mus = 2 \<or> mu_p_mean ! 0 \<le> mus ! (length mus - 1)"
    and "itheta < 10"
  shows "table_entries mus ! itheta = hd (entries mus (mu_p_mean ! itheta))"
  using assms(3)
proof
  assume "length mus = 2"
  then have "\<And>m. m \<in> set mu_p_mean \<Longrightarrow> length (entries mus m) = 1"
    by (rule entries_two_mus)
  then show ?thesis
    unfolding table_entries_concat
    by (rule concat_singletons_nth) (use assms(4) in \<open>simp_all add: length_mu_p_mean\<close>)
next
  assume top: "mu_p_mean ! 0 \<le> mus ! (length mus - 1)"
  have "m \<le> mus ! (length mus - 1)" if "m \<in> set mu_p_mean" for m
    using mu_p_mean_le_first[OF that] top by simp
  then show ?thesis
    unfolding table_entries_concat
    by (intro descending_centres_aligned[OF assms(1,2) mu_p_mean_descending])
      (use assms(4) in \<open>simp_all add: length_mu_p_mean\<close>)
qed

subsection \<open>The flux of a field of the right shape\<close>

lemma bindE_Inr [simp]: "bindE (Inr x) f = f x"
  by (simp add: bindE_def)

lemma bindE_Inl [simp]: "bindE (Inl e) f = Inl e"
  by (simp add: bindE_def)

lemma slice_mu_ok:
  assumes "list_all (\<lambda>row. length row = D) interp" "k < D"
  shows "slice_mu interp k = Inr (map (\<lambda>row. row ! k) interp)"
proof -
  have "list_all (\<lambda>row. k < length row) interp"
    using assms by (simp add: list_all_iff)
  then show ?thesis by (simp add: slice_mu_def)
qed

lemma table_entry_at:
  assumes "2 \<le> length mus" "itheta < 10"
  obtains d i where "py_index (fst (lookup_table mus)) itheta = Inr d"
    and "py_index (snd (lookup_table mus)) itheta = Inr i"
    and "i < length mus" and "d \<Longrightarrow> i + 1 < length mus"
proof -
  have len: "itheta < length (table_entries mus)"
    using table_entries_length[OF assms(1)] assms(2) by simp
  obtain d i where di: "table_entries mus ! itheta = (d, i)"
    by (cases "table_entries mus ! itheta")
  with len have mem: "(d, i) \<in> set (table_entries mus)"
    by (metis nth_mem)
  have b: "i < length mus \<and> (d \<longrightarrow> i + 1 < length mus)"
    by (rule table_entries_bounds[OF assms(1) mem])
  have "py_index (fst (lookup_table mus)) itheta = Inr d"
    using len di by (simp add: lookup_table_entries py_index_def)
  moreover have "py_index (snd (lookup_table mus)) itheta = Inr i"
    using len di by (simp add: lookup_table_entries py_index_def)
  ultimately show thesis using b that by blast
qed

lemma I_use_ok:
  assumes "2 \<le> length mus" "itheta < 10"
    and "length interp = N" "list_all (\<lambda>row. length row = length mus) interp"
  shows "\<exists>I. I_use mus (fst (lookup_table mus)) (snd (lookup_table mus)) interp itheta = Inr I
              \<and> length I = N"
proof -
  obtain d i where d: "py_index (fst (lookup_table mus)) itheta = Inr d"
    and i: "py_index (snd (lookup_table mus)) itheta = Inr i"
    and b: "i < length mus" "d \<Longrightarrow> i + 1 < length mus"
    using table_entry_at[OF assms(1,2)] by blast
  have s: "slice_mu interp i = Inr (map (\<lambda>row. row ! i) interp)"
    by (rule slice_mu_ok[OF assms(4) b(1)])
  show ?thesis
  proof (cases d)
    case False
    then show ?thesis using d i s assms(3) by (simp add: I_use_def)
  next
    case True
    then have b2: "i + 1 < length mus" by (rule b(2))
    have s2: "slice_mu interp (i + 1) = Inr (map (\<lambda>row. row ! (i + 1)) interp)"
      by (rule slice_mu_ok[OF assms(4) b2])
    show ?thesis using True d i s s2 b(1) b2 assms(3)
      by (simp add: I_use_def py_index_def)
  qed
qed

lemma cell_dF_ok:
  assumes "2 \<le> length mus" "itheta < 10" "field_shape f N (length mus)"
  shows "\<exists>dF. cell_dF mus (lookup_table mus) f phase iphi itheta = Inr dF \<and> length dF = N"
proof -
  have "length (f (cell_point phase iphi itheta)) = N"
    and "list_all (\<lambda>row. length row = length mus) (f (cell_point phase iphi itheta))"
    using assms(3) by (simp_all add: field_shape_def)
  from I_use_ok[OF assms(1,2) this]
  obtain I where "I_use mus (fst (lookup_table mus)) (snd (lookup_table mus))
                    (f (cell_point phase iphi itheta)) itheta = Inr I" "length I = N"
    by blast
  then show ?thesis by (simp add: cell_dF_def)
qed

lemma np_add_same_length:
  assumes "length xs = N" "length ys = N"
  shows "\<exists>zs. np_binop (+) xs ys = Inr zs \<and> length zs = N"
  using assms by (simp add: np_binop_def)

lemma theta_loop_ok:
  assumes "2 \<le> length mus" "field_shape f N (length mus)"
    and "acc = Inr flux" "length flux = N"
  shows "\<exists>flux'. theta_loop mus (lookup_table mus) f phase iphi acc = Inr flux' \<and> length flux' = N"
  unfolding theta_loop_def
proof (rule fold_invariant[where Q = "\<lambda>itheta. itheta < 10"
        and P = "\<lambda>a. \<exists>flux'. a = Inr flux' \<and> length flux' = N"])
  show "\<And>x. x \<in> set [0..<length mu_p_mean] \<Longrightarrow> x < 10"
    by (simp add: length_mu_p_mean)
  show "\<exists>flux'. acc = Inr flux' \<and> length flux' = N"
    using assms(3,4) by simp
next
  fix itheta :: nat and a :: "error + real list"
  assume lt: "itheta < 10" and "\<exists>flux'. a = Inr flux' \<and> length flux' = N"
  then obtain fl where a: "a = Inr fl" "length fl = N" by blast
  obtain dF where dF: "cell_dF mus (lookup_table mus) f phase iphi itheta = Inr dF" "length dF = N"
    using cell_dF_ok[OF assms(1) lt assms(2)] by blast
  from np_add_same_length[OF a(2) dF(2)]
  show "\<exists>flux'. bindE a (\<lambda>flux_arr. bindE (cell_dF mus (lookup_table mus) f phase iphi itheta)
                   (\<lambda>dF. np_binop (+) flux_arr dF)) = Inr flux' \<and> length flux' = N"
    using a dF by simp
qed

lemma calc_phase_curve_ok:
  assumes "2 \<le> length mus" "field_shape f N (length mus)"
  shows "\<exists>flux. calc_phase_curve phase mus f = Inr flux \<and> length flux = N"
proof -
  have N: "length (f [0, 0, 0]) = N" using assms(2) by (simp add: field_shape_def)
  have "\<exists>flux. fold (\<lambda>iphi acc. theta_loop mus (lookup_table mus) f phase iphi acc)
           [0..<length phi_p_mean] (Inr (replicate N 0)) = Inr flux \<and> length flux = N"
  proof (rule fold_invariant[where Q = "\<lambda>_. True"
        and P = "\<lambda>a. \<exists>flux'. a = Inr flux' \<and> length flux' = N"])
    show "\<exists>flux'. Inr (replicate N 0) = Inr flux' \<and> length flux' = N" by simp
  next
    fix iphi :: nat and a :: "error + real list"
    assume "\<exists>flux'. a = Inr flux' \<and> length flux' = N"
    then obtain fl where "a = Inr fl" "length fl = N" by blast
    then show "\<exists>flux'. theta_loop mus (lookup_table mus) f phase iphi a = Inr flux' \<and> length flux' = N"
      by (rule theta_loop_ok[OF assms])
  qed simp
  then show ?thesis by (simp add: calc_phase_curve_def N)
qed

subsection \<open>The cell of an indexed list\<close>

lemma sorted_nth_le:
  fixes mus :: "real list"
  assumes "sorted_wrt (<) mus" "a \<le> b" "b < length mus"
  shows "mus ! a \<le> mus ! b"
  using assms by (cases "a = b") (auto simp: sorted_wrt_iff_nth_less less_imp_le)

lemma table_lookup_aligned:
  assumes "sorted_wrt (<) mus" "2 \<le> length mus"
    and "length mus = 2 \<or> mu_p_mean ! 0 \<le> mus ! (length mus - 1)"
    and "itheta < 10" "entries mus (mu_p_mean ! itheta) = (d, i) # rest"
  shows "py_index (fst (lookup_table mus)) itheta = Inr d"
    and "py_index (snd (lookup_table mus)) itheta = Inr i"
proof -
  have len: "itheta < length (table_entries mus)"
    using table_entries_length[OF assms(2)] assms(4) by simp
  have "table_entries mus ! itheta = (d, i)"
    using table_entries_aligned[OF assms(1,2,3,4)] assms(5) by simp
  with len show "py_index (fst (lookup_table mus)) itheta = Inr d"
    and "py_index (snd (lookup_table mus)) itheta = Inr i"
    by (simp_all add: lookup_table_entries py_index_def)
qed

text \<open>
  Under that condition the cell of index \<open>itheta\<close> does what the lookup of its own centre
  says: the first bin at or below the smallest sample mu, the last bin above the
  largest, the linear interpolation in the bracket otherwise.
\<close>

lemma I_use_aligned_low:
  assumes "sorted_wrt (<) mus" "2 \<le> length mus"
    and "length mus = 2 \<or> mu_p_mean ! 0 \<le> mus ! (length mus - 1)"
    and "itheta < 10" "mu_p_mean ! itheta \<le> mus ! 0"
  shows "I_use mus (fst (lookup_table mus)) (snd (lookup_table mus)) interp itheta = slice_mu interp 0"
proof -
  have "0 < length mus - 1" using assms(2) by simp
  then obtain k where k: "length mus - 1 = Suc k" by (cases "length mus - 1") simp_all
  have "entries mus (mu_p_mean ! itheta) = (False, 0) # replicate k (False, 0)"
    using entries_clamped_low[OF assms(5)] k by simp
  from table_lookup_aligned[OF assms(1,2,3,4) this]
  show ?thesis by (simp add: I_use_def)
qed

lemma I_use_aligned_high:
  assumes "sorted_wrt (<) mus" "2 \<le> length mus"
    and "length mus = 2 \<or> mu_p_mean ! 0 \<le> mus ! (length mus - 1)"
    and "itheta < 10" "mu_p_mean ! itheta > mus ! (length mus - 1)"
  shows "I_use mus (fst (lookup_table mus)) (snd (lookup_table mus)) interp itheta =
           slice_mu interp (length mus - 1)"
proof -
  have "0 < length mus - 1" using assms(2) by simp
  then obtain k where k: "length mus - 1 = Suc k" by (cases "length mus - 1") simp_all
  have "mus ! 0 \<le> mus ! (length mus - 1)"
    using assms(1,2) by (intro sorted_nth_le) simp_all
  with assms(5) have "\<not> mu_p_mean ! itheta \<le> mus ! 0" by simp
  then have "entries mus (mu_p_mean ! itheta) =
          (False, length mus - 1) # replicate k (False, length mus - 1)"
    using entries_clamped_high[OF _ assms(5)] k by simp
  from table_lookup_aligned[OF assms(1,2,3,4) this]
  show ?thesis by (simp add: I_use_def)
qed

lemma I_use_aligned_interior:
  assumes "sorted_wrt (<) mus" "2 \<le> length mus"
    and "length mus = 2 \<or> mu_p_mean ! 0 \<le> mus ! (length mus - 1)"
    and "itheta < 10"
    and "j < length mus - 1" "mus ! j < mu_p_mean ! itheta" "mu_p_mean ! itheta \<le> mus ! (j + 1)"
    and "list_all (\<lambda>row. length row = length mus) interp"
  shows "I_use mus (fst (lookup_table mus)) (snd (lookup_table mus)) interp itheta =
           Inr (map2 (\<lambda>s l. s + (l - s) / (mus ! (j + 1) - mus ! j) * (mu_p_mean ! itheta - mus ! j))
                  (map (\<lambda>row. row ! j) interp) (map (\<lambda>row. row ! (j + 1)) interp))"
proof -
  have "mus ! 0 \<le> mus ! j"
    using assms(1,5) by (intro sorted_nth_le) simp_all
  with assms(6) have lo: "mus ! 0 < mu_p_mean ! itheta" by simp
  have "mus ! (j + 1) \<le> mus ! (length mus - 1)"
    using assms(1,5) by (intro sorted_nth_le) simp_all
  with assms(7) have hi: "mu_p_mean ! itheta \<le> mus ! (length mus - 1)" by simp
  have "entries mus (mu_p_mean ! itheta) = (True, j) # []"
    using entries_interior[OF assms(1) lo hi assms(5,6,7)] by simp
  from table_lookup_aligned[OF assms(1,2,3,4) this]
  have t: "py_index (fst (lookup_table mus)) itheta = Inr True"
    "py_index (snd (lookup_table mus)) itheta = Inr j" .
  have j: "j < length mus" "j + 1 < length mus" using assms(5) by simp_all
  have m: "py_index mus j = Inr (mus ! j)" "py_index mus (Suc j) = Inr (mus ! Suc j)"
    using j by (simp_all add: py_index_def)
  have s: "slice_mu interp j = Inr (map (\<lambda>row. row ! j) interp)"
    "slice_mu interp (Suc j) = Inr (map (\<lambda>row. row ! Suc j) interp)"
    using slice_mu_ok[OF assms(8) j(1)] slice_mu_ok[OF assms(8) j(2)] by simp_all
  show ?thesis
    by (simp add: I_use_def t m s)
qed

subsection \<open>The grid in numbers, and the flux of a constant field\<close>

lemma del_mu_p_eq: "del_mu_p = replicate 10 (1/10)"
  by (simp add: del_mu_p_def np_diff_def mu_p_grid_bord_eq numeral_eq_Suc)

lemma phi_p_grid_bord_eq: "phi_p_grid_bord = map (\<lambda>k. real k * (pi / 5)) [0..<11]"
  by (simp add: phi_p_grid_bord_def linspace_def)

lemma phi_p_mean_eq: "phi_p_mean = map (\<lambda>k. (2 * real k + 1) * (pi / 10)) [0..<10]"
  by (simp add: phi_p_mean_def midpoints_def phi_p_grid_bord_eq upt11 upt10 field_simps)

lemma del_phi_p_eq: "del_phi_p = replicate 10 (pi / 5)"
  by (simp add: del_phi_p_def np_diff_def phi_p_grid_bord_eq upt11 numeral_eq_Suc field_simps)

lemma length_phi_p_mean: "length phi_p_mean = 10"
  by (simp add: phi_p_mean_eq)

lemma hemisphere_constant_pi: "hemisphere_constant = pi"
  by (simp add: hemisphere_constant_def length_phi_p_mean length_mu_p_mean upt10
      mu_p_mean_eq del_mu_p_eq del_phi_p_eq numeral_eq_Suc)

lemma map2_replicate:
  "map2 f (replicate n a) (replicate n b) = replicate n (f a b)"
  by (simp add: zip_replicate)

lemma slice_mu_const:
  assumes "k < D"
  shows "slice_mu (replicate N (replicate D c)) k = Inr (replicate N c)"
  using assms by (simp add: slice_mu_def list_all_iff)

lemma I_use_const:
  assumes "2 \<le> length mus" "itheta < 10"
  shows "I_use mus (fst (lookup_table mus)) (snd (lookup_table mus))
           (replicate N (replicate (length mus) c)) itheta = Inr (replicate N c)"
proof -
  obtain d i where d: "py_index (fst (lookup_table mus)) itheta = Inr d"
    and i: "py_index (snd (lookup_table mus)) itheta = Inr i"
    and b: "i < length mus" "d \<Longrightarrow> i + 1 < length mus"
    using table_entry_at[OF assms(1,2)] by blast
  show ?thesis
  proof (cases d)
    case False
    then show ?thesis using d i b(1) by (simp add: I_use_def slice_mu_const)
  next
    case True
    then have b2: "i + 1 < length mus" by (rule b(2))
    show ?thesis using True d i b(1) b2
      by (simp add: I_use_def py_index_def slice_mu_const map2_replicate)
  qed
qed

lemma cell_dF_const:
  assumes "2 \<le> length mus" "itheta < 10" "\<And>p. f p = replicate N (replicate (length mus) c)"
  shows "cell_dF mus (lookup_table mus) f phase iphi itheta =
           Inr (replicate N (c * (mu_p_mean ! itheta * del_mu_p ! itheta * del_phi_p ! iphi)))"
  by (simp add: cell_dF_def assms(3) I_use_const[OF assms(1,2)] mult.assoc)

lemma fold_accumulate:
  assumes "\<And>i. i \<in> set xs \<Longrightarrow> g i = Inr (replicate N (w i))"
  shows "fold (\<lambda>i acc. bindE acc (\<lambda>flux_arr. bindE (g i) (\<lambda>dF. np_binop (+) flux_arr dF)))
           xs (Inr (replicate N s)) = Inr (replicate N (s + sum_list (map w xs)))"
  using assms
proof (induction xs arbitrary: s)
  case Nil
  then show ?case by simp
next
  case (Cons x xs)
  have x: "g x = Inr (replicate N (w x))" using Cons.prems by simp
  have "np_binop (+) (replicate N s) (replicate N (w x)) = Inr (replicate N (s + w x))"
    by (simp add: np_binop_def map2_replicate)
  then show ?case using Cons x by (simp add: add.assoc)
qed

lemma theta_loop_const:
  assumes "2 \<le> length mus" "\<And>p. f p = replicate N (replicate (length mus) c)"
  shows "theta_loop mus (lookup_table mus) f phase iphi (Inr (replicate N s)) =
           Inr (replicate N (s + (\<Sum>itheta\<leftarrow>[0..<length mu_p_mean].
                  c * (mu_p_mean ! itheta * del_mu_p ! itheta * del_phi_p ! iphi))))"
  unfolding theta_loop_def
proof (rule fold_accumulate)
  fix i assume "i \<in> set [0..<length mu_p_mean]"
  then have "i < 10" by (simp add: length_mu_p_mean)
  then show "cell_dF mus (lookup_table mus) f phase iphi i =
        Inr (replicate N (c * (mu_p_mean ! i * del_mu_p ! i * del_phi_p ! iphi)))"
    by (rule cell_dF_const[OF assms(1) _ assms(2)])
qed

lemma fold_rows:
  assumes "\<And>i s. h i (Inr (replicate N s)) = Inr (replicate N (s + W i))"
  shows "fold h xs (Inr (replicate N s)) = Inr (replicate N (s + sum_list (map W xs)))"
proof (induction xs arbitrary: s)
  case Nil
  then show ?case by simp
next
  case (Cons x xs)
  show ?case by (simp add: assms Cons.IH add.assoc)
qed

lemma calc_phase_curve_const:
  assumes "2 \<le> length mus" "\<And>p. f p = replicate N (replicate (length mus) c)"
  shows "calc_phase_curve phase mus f = Inr (replicate N (c * hemisphere_constant))"
proof -
  have "fold (\<lambda>iphi acc. theta_loop mus (lookup_table mus) f phase iphi acc)
          [0..<length phi_p_mean] (Inr (replicate N 0)) =
        Inr (replicate N (0 + (\<Sum>iphi\<leftarrow>[0..<length phi_p_mean]. \<Sum>itheta\<leftarrow>[0..<length mu_p_mean].
                  c * (mu_p_mean ! itheta * del_mu_p ! itheta * del_phi_p ! iphi))))"
    by (rule fold_rows) (rule theta_loop_const[OF assms])
  then show ?thesis
    by (simp add: calc_phase_curve_def assms(2) hemisphere_constant_def sum_list_const_mult)
qed

subsection \<open>The entry point: formatting, the interpolator, the rows\<close>

lemma length3E:
  assumes "length xs = 3"
  obtains a b c where "xs = [a, b, c]"
  using assms by (auto simp: numeral_3_eq_3 length_Suc_conv)

lemma length4E:
  assumes "length xs = 4"
  obtains a b c d where "xs = [a, b, c, d]"
proof -
  from assms have "length xs = Suc (Suc (Suc (Suc 0)))" by simp
  then show thesis using that by (auto simp: length_Suc_conv)
qed

lemma flatten_grid_ok:
  assumes "length (shape a) = 1 \<or> length (shape a) = 2"
  shows "\<exists>a'. flatten_grid a = Inr a' \<and> data a' = data a"
  using assms by (auto simp: flatten_grid_def)

lemma flatten_grid_error:
  "flatten_grid a = Inl e \<longleftrightarrow> e = IndexError \<and> length (shape a) \<noteq> 1 \<and> length (shape a) \<noteq> 2"
  by (auto simp: flatten_grid_def)

lemma flatten_intensity_ok:
  assumes "length (shape a) = 3 \<or> length (shape a) = 4"
  shows "flatten_intensity a = Inr (flat a)"
  using assms
proof
  assume 3: "length (shape a) = 3"
  then obtain s0 s1 s2 where "shape a = [s0, s1, s2]" by (rule length3E)
  then show ?thesis
    by (simp add: flatten_intensity_def flat_def n_points_def wavelength_dim_def mu_dim_def)
next
  assume 4: "length (shape a) = 4"
  then obtain s0 s1 s2 s3 where "shape a = [s0, s1, s2, s3]" by (rule length4E)
  then show ?thesis
    by (simp add: flatten_intensity_def flat_def n_points_def wavelength_dim_def mu_dim_def)
qed

lemma flatten_intensity_error:
  "flatten_intensity a = Inl e \<longleftrightarrow> e = IndexError \<and> length (shape a) \<noteq> 3 \<and> length (shape a) \<noteq> 4"
  by (auto simp: flatten_intensity_def)

lemma format_input_error:
  "format_input lon lat intensity = Inl e \<longleftrightarrow>
     e = IndexError \<and>
     \<not> ((length (shape lon) = 1 \<or> length (shape lon) = 2) \<and>
        (length (shape lat) = 1 \<or> length (shape lat) = 2) \<and>
        (length (shape intensity) = 3 \<or> length (shape intensity) = 4))"
  by (auto simp: format_input_def flatten_grid_def flatten_intensity_def)

lemma np_binop_broadcast_left:
  assumes "length xs = length ys \<or> length xs = 1"
  shows "\<exists>zs. np_binop f xs ys = Inr zs \<and> length zs = length ys"
  using assms by (auto simp: np_binop_def)

text \<open>
  With accepted ranks and as many longitudes as latitudes, or a single longitude (which
  numpy broadcasts), the interpolator is called with one point per latitude.
\<close>

lemma build_interpolator_broadcast:
  assumes "length (shape lon) = 1 \<or> length (shape lon) = 2"
    and "length (shape lat) = 1 \<or> length (shape lat) = 2"
    and "length (shape intensity) = 3 \<or> length (shape intensity) = 4"
    and "length (data lon) = M \<or> length (data lon) = 1" "length (data lat) = M"
  shows "\<exists>pts. length pts = M \<and>
           build_interpolator RBF lon lat intensity = RBF pts (flat intensity) (1 / 10)"
proof -
  obtain lon' where lon': "flatten_grid lon = Inr lon'" "data lon' = data lon"
    using flatten_grid_ok[OF assms(1)] by blast
  obtain lat' where lat': "flatten_grid lat = Inr lat'" "data lat' = data lat"
    using flatten_grid_ok[OF assms(2)] by blast
  have fmt: "format_input lon lat intensity = Inr (lon', lat', flat intensity)"
    by (simp add: format_input_def lon' lat' flatten_intensity_ok[OF assms(3)])
  define phi where "phi = map (\<lambda>l. l / 180 * pi) (data lon)"
  define theta where "theta = map (\<lambda>l. (l + 90) / 180 * pi) (data lat)"
  have len: "length phi = M \<or> length phi = 1" "length theta = M"
    using assms(4,5) by (simp_all add: phi_def theta_def)
  obtain x where x: "np_binop (*) (map cos phi) (map sin theta) = Inr x" and lx: "length x = M"
    using np_binop_broadcast_left[of "map cos phi" "map sin theta" "(*)"] len by auto
  obtain y where y: "np_binop (*) (map sin phi) (map sin theta) = Inr y" and ly: "length y = M"
    using np_binop_broadcast_left[of "map sin phi" "map sin theta" "(*)"] len by auto
  define pts where "pts = map (\<lambda>i. [x ! i, y ! i, map cos theta ! i]) [0..<length x]"
  have p: "points_T x y (map cos theta) = Inr pts"
    using lx ly len by (simp add: points_T_def pts_def)
  have "length pts = M" using lx by (simp add: pts_def)
  moreover have "build_interpolator RBF lon lat intensity = RBF pts (flat intensity) (1 / 10)"
    by (simp only: build_interpolator_def fmt bindE_Inr prod.case Let_def lon' lat'
        phi_def[symmetric] theta_def[symmetric] x y p)
  ultimately show ?thesis by blast
qed

lemma build_interpolator_formatted:
  assumes "length (shape lon) = 1 \<or> length (shape lon) = 2"
    and "length (shape lat) = 1 \<or> length (shape lat) = 2"
    and "length (shape intensity) = 3 \<or> length (shape intensity) = 4"
    and "length (data lon) = M" "length (data lat) = M"
  shows "\<exists>pts. length pts = M \<and>
           build_interpolator RBF lon lat intensity = RBF pts (flat intensity) (1 / 10)"
  using build_interpolator_broadcast[OF assms(1,2,3) _ assms(5), of RBF] assms(4) by blast

lemma mapE_Inr_iff:
  "mapE g xs = Inr ys \<longleftrightarrow> length ys = length xs \<and> (\<forall>k<length xs. g (xs ! k) = Inr (ys ! k))"
proof (induction xs arbitrary: ys)
  case Nil
  then show ?case by auto
next
  case (Cons x xs)
  show ?case
  proof (cases "g x")
    case (Inl e)
    then show ?thesis by (auto simp: bindE_def)
  next
    case (Inr y)
    show ?thesis
    proof (cases "mapE g xs")
      case (Inl e)
      with Cons.IH have no: "\<And>zs. \<not> (length zs = length xs \<and> (\<forall>k<length xs. g (xs ! k) = Inr (zs ! k)))"
        by auto
      have "\<not> (length ys = length (x # xs) \<and> (\<forall>k<length (x # xs). g ((x # xs) ! k) = Inr (ys ! k)))"
      proof
        assume a: "length ys = length (x # xs) \<and> (\<forall>k<length (x # xs). g ((x # xs) ! k) = Inr (ys ! k))"
        then obtain z zs where ys: "ys = z # zs" by (cases ys) auto
        with a have "length zs = length xs \<and> (\<forall>k<length xs. g (xs ! k) = Inr (zs ! k))"
          by auto
        with no show False by blast
      qed
      with Inl Inr show ?thesis by simp
    next
      case r: (Inr zs)
      with Cons.IH have zs: "length zs = length xs" "\<forall>k<length xs. g (xs ! k) = Inr (zs ! k)"
        by auto
      show ?thesis
      proof
        assume "mapE g (x # xs) = Inr ys"
        with Inr r have "ys = y # zs" by simp
        with zs Inr show "length ys = length (x # xs) \<and> (\<forall>k<length (x # xs). g ((x # xs) ! k) = Inr (ys ! k))"
          by (auto simp: nth_Cons split: nat.splits)
      next
        assume a: "length ys = length (x # xs) \<and> (\<forall>k<length (x # xs). g ((x # xs) ! k) = Inr (ys ! k))"
        then obtain z zs' where ys: "ys = z # zs'" by (cases ys) auto
        with a have "g x = Inr z" by auto
        with Inr have z: "z = y" by simp
        from a ys have "length zs' = length xs \<and> (\<forall>k<length xs. g (xs ! k) = Inr (zs' ! k))"
          by auto
        with Cons.IH have "mapE g xs = Inr zs'" by blast
        with r have "zs' = zs" by simp
        with ys z Inr r show "mapE g (x # xs) = Inr ys" by simp
      qed
    qed
  qed
qed

lemma mapE_ok:
  assumes "\<And>x. x \<in> set xs \<Longrightarrow> \<exists>y. g x = Inr y"
  shows "\<exists>ys. mapE g xs = Inr ys"
  using assms
proof (induction xs)
  case Nil
  then show ?case by simp
next
  case (Cons x xs)
  then obtain y ys where "g x = Inr y" "mapE g xs = Inr ys" by fastforce
  then show ?case by simp
qed

lemma mapE_const:
  assumes "\<And>x. x \<in> set xs \<Longrightarrow> g x = Inr y"
  shows "mapE g xs = Inr (replicate (length xs) y)"
  using assms by (induction xs) simp_all

lemma flat_simps:
  "data (flat a) = data a" "shape (flat a) = [n_points a, wavelength_dim a, mu_dim a]"
  by (simp_all add: flat_def)

lemma build_interpolator_fits:
  assumes "valid_shapes lon lat mus intensity" "fits_samples RBF"
  shows "\<exists>f. build_interpolator RBF lon lat intensity = Inr f \<and>
             field_shape f (wavelength_dim intensity) (length mus)"
proof -
  from assms(1) have r: "length (shape lon) = 1 \<or> length (shape lon) = 2"
    "length (shape lat) = 1 \<or> length (shape lat) = 2"
    "length (shape intensity) = 3 \<or> length (shape intensity) = 4"
    and l: "length (data lon) = n_points intensity" "length (data lat) = n_points intensity"
    and n: "0 < n_points intensity" and m: "length mus = mu_dim intensity"
    by (simp_all add: valid_shapes_def)
  obtain pts where pts: "length pts = n_points intensity"
    "build_interpolator RBF lon lat intensity = RBF pts (flat intensity) (1 / 10)"
    using build_interpolator_formatted[OF r l] by blast
  have "length (shape (flat intensity)) = 3 \<and> shape (flat intensity) ! 0 = length pts \<and> 0 < length pts"
    using pts(1) n by (simp add: flat_simps)
  with assms(2) obtain f where "RBF pts (flat intensity) (1 / 10) = Inr f"
    "field_shape f (shape (flat intensity) ! 1) (shape (flat intensity) ! 2)"
    unfolding fits_samples_def by blast
  then show ?thesis using pts(2) m by (simp add: flat_simps)
qed

lemma rows_of_shaped_field:
  assumes "2 \<le> length mus" "field_shape f N (length mus)"
  shows "\<exists>rows. mapE (\<lambda>phase. calc_phase_curve phase mus f) phases = Inr rows \<and>
          length rows = length phases \<and>
          (\<forall>k<length phases. calc_phase_curve (phases ! k) mus f = Inr (rows ! k) \<and> length (rows ! k) = N)"
proof -
  have "\<exists>rows. mapE (\<lambda>phase. calc_phase_curve phase mus f) phases = Inr rows"
    by (rule mapE_ok) (use calc_phase_curve_ok[OF assms] in blast)
  then obtain rows where rows: "mapE (\<lambda>phase. calc_phase_curve phase mus f) phases = Inr rows"
    by blast
  then have a: "length rows = length phases"
    and b: "\<forall>k<length phases. calc_phase_curve (phases ! k) mus f = Inr (rows ! k)"
    by (simp_all add: mapE_Inr_iff)
  have "length (rows ! k) = N" if "k < length phases" for k
  proof -
    obtain flux where "calc_phase_curve (phases ! k) mus f = Inr flux" "length flux = N"
      using calc_phase_curve_ok[OF assms] by blast
    with b that show ?thesis by simp
  qed
  with rows a b show ?thesis by blast
qed

lemma swap_length [simp]: "length (swap i j xs) = length xs"
  by (simp add: swap_def)

lemma swap_nth:
  assumes "i < length xs" "j < length xs" "k < length xs"
  shows "swap i j xs ! k = (if k = j then xs ! i else if k = i then xs ! j else xs ! k)"
  using assms by (simp add: swap_def nth_list_update)

lemma mapE_swap:
  assumes "mapE g xs = Inr ys" "i < length xs" "j < length xs"
  shows "mapE g (swap i j xs) = Inr (swap i j ys)"
proof -
  from assms(1) have len: "length ys = length xs"
    and nth: "\<And>k. k < length xs \<Longrightarrow> g (xs ! k) = Inr (ys ! k)"
    by (simp_all add: mapE_Inr_iff)
  have "g (swap i j xs ! k) = Inr (swap i j ys ! k)" if "k < length xs" for k
    using that assms(2,3) len nth by (simp add: swap_nth)
  then show ?thesis using len by (simp add: mapE_Inr_iff)
qed


lemma first_sample_field_const:
  assumes "length (shape d) = 3" "shape d ! 0 = length pts" "0 < length pts"
    and "length (data d) = prod_list (shape d)" "list_all (\<lambda>v. v = c) (data d)"
  shows "first_sample_field pts d s = Inr (\<lambda>p. replicate (shape d ! 1) (replicate (shape d ! 2) c))"
proof -
  obtain M N D where sh: "shape d = [M, N, D]" using assms(1) by (rule length3E)
  have M: "0 < M" using assms(2,3) sh by simp
  have len: "length (data d) = M * N * D" using assms(4) sh by simp
  have c: "data d ! (n * D + k) = c" if "n < N" "k < D" for n k
  proof -
    have "n * D + k < Suc n * D" using that by simp
    also have "\<dots> \<le> N * D" using that(1) by (simp add: Suc_leI mult_le_mono1 del: mult_Suc)
    also have "\<dots> \<le> M * (N * D)" using M by simp
    finally have "n * D + k < length (data d)" using len by (simp add: mult.assoc)
    with assms(5) show ?thesis by (simp add: list_all_length)
  qed
  have "map (\<lambda>n. map (\<lambda>k. data d ! (n * D + k)) [0..<D]) [0..<N] = replicate N (replicate D c)"
  proof -
    have "map (\<lambda>k. data d ! (n * D + k)) [0..<D] = replicate D c" if "n < N" for n
      using that c by (simp add: list_eq_iff_nth_eq)
    then show ?thesis by (simp add: list_eq_iff_nth_eq)
  qed
  then show ?thesis using assms(1,2,3) sh by (simp add: first_sample_field_def)
qed




subsection \<open>Helper facts for the claims\<close>

lemma lookup_table_low_mus:
  "lookup_table low_mus =
     ([False, False, False, False, False, False, False, False, False, False,
       False, False, False, False, True, True, False, False],
      [2, 2, 2, 2, 2, 2, 2, 2, 2, 2, 2, 2, 2, 2, 1, 0, 0, 0])"
  by (simp add: lookup_table_def low_mus_def mu_p_mean_eq inner_loop_def lookup_step_def
      upt_rec_numeral numeral_eq_Suc)

lemma midpoints_nth:
  assumes "i + 1 < length a"
  shows "midpoints a ! i = (a ! i + a ! (i + 1)) / 2"
  using assms by (simp add: midpoints_def nth_tl nth_butlast add.commute)

lemma np_diff_nth:
  assumes "i + 1 < length a"
  shows "np_diff a ! i = a ! (i + 1) - a ! i"
  using assms by (simp add: np_diff_def nth_tl nth_butlast)

lemma length_np_diff: "length (np_diff a) = length a - 1"
  by (simp add: np_diff_def)

lemma valid_shapes_grid: "valid_shapes grid_lon grid_lat low_mus grid_intensity"
  by (simp add: valid_shapes_def grid_lon_def grid_lat_def grid_intensity_def low_mus_def
      n_points_def mu_dim_def)


lemma valid_input_grid: "valid_input grid_lon grid_lat low_mus grid_intensity"
  using valid_shapes_grid by (simp add: valid_input_def low_mus_def)



lemma fold_bindE_Inl:
  "fold (\<lambda>i acc. bindE acc (g i)) xs (Inl e) = Inl e"
  by (induction xs) simp_all

lemma theta_loop_Inl: "theta_loop mus tab f phase iphi (Inl e) = Inl e"
  unfolding theta_loop_def by (rule fold_bindE_Inl)

lemma fold_theta_loop_Inl:
  "fold (\<lambda>iphi acc. theta_loop mus tab f phase iphi acc) xs (Inl e) = Inl e"
  by (induction xs) (simp_all add: theta_loop_Inl)

lemma lookup_table_single: 
  assumes "length mus \<le> 1"
  shows "lookup_table mus = ([], [])"
proof -
  have "length mus - 1 = 0" using assms by simp
  then have "entries mus m = []" for m by (simp add: entries_def)
  then show ?thesis by (simp add: lookup_table_entries table_entries_def)
qed

lemma upt_10_Cons: "[0..<10] = 0 # [1..<10]"
  by (simp add: upt_rec)

text \<open>With fewer than two mu values the lists stay empty and the first cell raises.\<close>

lemma calc_phase_curve_single_mu:
  assumes "length mus \<le> 1"
  shows "calc_phase_curve phase mus f = Inl IndexError"
proof -
  have c: "cell_dF mus ([], []) f phase 0 0 = Inl IndexError"
    by (simp add: cell_dF_def I_use_def py_index_def)
  have t: "theta_loop mus ([], []) f phase 0 (Inr flux) = Inl IndexError" for flux
    unfolding theta_loop_def length_mu_p_mean upt_10_Cons
    by (simp add: c fold_bindE_Inl)
  show ?thesis
    unfolding calc_phase_curve_def lookup_table_single[OF assms] Let_def length_phi_p_mean upt_10_Cons
    by (simp add: t fold_theta_loop_Inl)
qed

lemma wrap_phase_curve_bad_rank:
  assumes "\<not> accepted_ranks lon lat intensity"
  shows "wrap_phase_curve RBF phases lon lat mus intensity = Inl IndexError"
proof -
  have "format_input lon lat intensity = Inl IndexError"
    using assms by (simp add: format_input_error accepted_ranks_def)
  then show ?thesis by (simp add: wrap_phase_curve_def build_interpolator_def)
qed

lemma format_input_accepted:
  assumes "accepted_ranks lon lat intensity"
  shows "\<exists>lon' lat'. format_input lon lat intensity = Inr (lon', lat', flat intensity) \<and>
           data lon' = data lon \<and> data lat' = data lat"
proof -
  from assms have r: "length (shape lon) = 1 \<or> length (shape lon) = 2"
    "length (shape lat) = 1 \<or> length (shape lat) = 2"
    "length (shape intensity) = 3 \<or> length (shape intensity) = 4"
    by (simp_all add: accepted_ranks_def)
  obtain lon' where lon': "flatten_grid lon = Inr lon'" "data lon' = data lon"
    using flatten_grid_ok[OF r(1)] by blast
  obtain lat' where lat': "flatten_grid lat = Inr lat'" "data lat' = data lat"
    using flatten_grid_ok[OF r(2)] by blast
  have "format_input lon lat intensity = Inr (lon', lat', flat intensity)"
    by (simp add: format_input_def lon' lat' flatten_intensity_ok[OF r(3)])
  with lon'(2) lat'(2) show ?thesis by blast
qed

lemma flat_four_intensity: "flat four_intensity = four_intensity"
  by (simp add: flat_def four_intensity_def n_points_def wavelength_dim_def mu_dim_def)

lemma dot_3x3:
  "dot [[a1, a2, a3], [b1, b2, b3], [c1, c2, c3]] [[x1, x2, x3], [y1, y2, y3], [z1, z2, z3]] =
     [[a1 * x1 + a2 * y1 + a3 * z1, a1 * x2 + a2 * y2 + a3 * z2, a1 * x3 + a2 * y3 + a3 * z3],
      [b1 * x1 + b2 * y1 + b3 * z1, b1 * x2 + b2 * y2 + b3 * z2, b1 * x3 + b2 * y3 + b3 * z3],
      [c1 * x1 + c2 * y1 + c3 * z1, c1 * x2 + c2 * y2 + c3 * z2, c1 * x3 + c2 * y3 + c3 * z3]]"
  by (simp add: dot_def ncols_def upt_rec_numeral numeral_eq_Suc)

lemma dot_3x1:
  "dot [[a1, a2, a3], [b1, b2, b3], [c1, c2, c3]] [[x], [y], [z]] =
     [[a1 * x + a2 * y + a3 * z], [b1 * x + b2 * y + b3 * z], [c1 * x + c2 * y + c3 * z]]"
  by (simp add: dot_def ncols_def)

lemma rot_matrix_eq:
  "rot_matrix p =
     [[0, sin (- 2 * pi * p), cos (- 2 * pi * p)],
      [0, cos (- 2 * pi * p), - sin (- 2 * pi * p)],
      [-1, 0, 0]]"
  by (simp add: rot_matrix_def axis_swap_def rot_x_def dot_3x3 Let_def mult.commute mult.left_commute)

lemma wrap_phase_curve_swap:
  assumes "wrap_phase_curve RBF phases lon lat mus intensity = Inr rows"
    and "i < length phases" "j < length phases"
  shows "wrap_phase_curve RBF (swap i j phases) lon lat mus intensity = Inr (swap i j rows)"
proof (cases "build_interpolator RBF lon lat intensity")
  case (Inl e)
  with assms(1) show ?thesis by (simp add: wrap_phase_curve_def)
next
  case (Inr f)
  with assms(1) have "mapE (\<lambda>phase. calc_phase_curve phase mus f) phases = Inr rows"
    by (simp add: wrap_phase_curve_def)
  then have "mapE (\<lambda>phase. calc_phase_curve phase mus f) (swap i j phases) = Inr (swap i j rows)"
    using assms(2,3) by (rule mapE_swap)
  with Inr show ?thesis by (simp add: wrap_phase_curve_def)
qed

subsection \<open>A field that depends on the direction\<close>

lemma cell_dF_const_at:
  assumes "2 \<le> length mus" "itheta < 10"
    and "f (cell_point phase iphi itheta) = replicate N (replicate (length mus) c)"
  shows "cell_dF mus (lookup_table mus) f phase iphi itheta =
           Inr (replicate N (c * (mu_p_mean ! itheta * del_mu_p ! itheta * del_phi_p ! iphi)))"
  by (simp add: cell_dF_def assms(3) I_use_const[OF assms(1,2)] mult.assoc)

lemma theta_loop_const_at:
  assumes "2 \<le> length mus"
    and "\<And>itheta. itheta < 10 \<Longrightarrow>
           f (cell_point phase iphi itheta) = replicate N (replicate (length mus) c)"
  shows "theta_loop mus (lookup_table mus) f phase iphi (Inr (replicate N s)) =
           Inr (replicate N (s + (\<Sum>itheta\<leftarrow>[0..<length mu_p_mean].
                  c * (mu_p_mean ! itheta * del_mu_p ! itheta * del_phi_p ! iphi))))"
  unfolding theta_loop_def
proof (rule fold_accumulate)
  fix i assume "i \<in> set [0..<length mu_p_mean]"
  then have i: "i < 10" by (simp add: length_mu_p_mean)
  show "cell_dF mus (lookup_table mus) f phase iphi i =
        Inr (replicate N (c * (mu_p_mean ! i * del_mu_p ! i * del_phi_p ! iphi)))"
    using assms(1) i assms(2)[OF i] by (rule cell_dF_const_at)
qed

lemma fold_rows_on:
  assumes "\<And>i s. i \<in> set xs \<Longrightarrow> h i (Inr (replicate N s)) = Inr (replicate N (s + W i))"
  shows "fold h xs (Inr (replicate N s)) = Inr (replicate N (s + sum_list (map W xs)))"
  using assms
proof (induction xs arbitrary: s)
  case Nil
  then show ?case by simp
next
  case (Cons x xs)
  have "h x (Inr (replicate N s)) = Inr (replicate N (s + W x))"
    using Cons.prems by simp
  moreover have "fold h xs (Inr (replicate N (s + W x))) =
                   Inr (replicate N (s + W x + sum_list (map W xs)))"
    using Cons.prems by (intro Cons.IH) simp
  ultimately show ?case by (simp add: add.assoc)
qed

text \<open>A field that is the same constant matrix at every cell direction of one phase.\<close>

lemma calc_phase_curve_const_on_cells:
  assumes "2 \<le> length mus" "length (f [0, 0, 0]) = N"
    and "\<And>iphi itheta. iphi < 10 \<Longrightarrow> itheta < 10 \<Longrightarrow>
           f (cell_point phase iphi itheta) = replicate N (replicate (length mus) c)"
  shows "calc_phase_curve phase mus f = Inr (replicate N (c * hemisphere_constant))"
proof -
  have "fold (\<lambda>iphi acc. theta_loop mus (lookup_table mus) f phase iphi acc)
          [0..<length phi_p_mean] (Inr (replicate N 0)) =
        Inr (replicate N (0 + (\<Sum>iphi\<leftarrow>[0..<length phi_p_mean]. \<Sum>itheta\<leftarrow>[0..<length mu_p_mean].
                  c * (mu_p_mean ! itheta * del_mu_p ! itheta * del_phi_p ! iphi))))"
  proof (rule fold_rows_on)
    fix iphi s assume "iphi \<in> set [0..<length phi_p_mean]"
    then have "iphi < 10" by (simp add: length_phi_p_mean)
    then show "theta_loop mus (lookup_table mus) f phase iphi (Inr (replicate N s)) =
           Inr (replicate N (s + (\<Sum>itheta\<leftarrow>[0..<length mu_p_mean].
                  c * (mu_p_mean ! itheta * del_mu_p ! itheta * del_phi_p ! iphi))))"
      by (intro theta_loop_const_at[OF assms(1)] assms(3))
  qed
  then show ?thesis
    by (simp add: calc_phase_curve_def assms(2) hemisphere_constant_def sum_list_const_mult)
qed

lemma cell_point_x:
  "cell_point phase iphi itheta ! 0 =
     sin (- 2 * pi * phase) * (sin (phi_p_mean ! iphi) * sqrt (1 - (mu_p_mean ! itheta)\<^sup>2)) +
     cos (- 2 * pi * phase) * (mu_p_mean ! itheta)"
  by (simp add: cell_point_def Let_def rot_matrix_eq dot_3x1)

lemma mu_p_mean_pos:
  assumes "itheta < 10"
  shows "0 < mu_p_mean ! itheta"
proof -
  have "\<forall>m \<in> set mu_p_mean. 0 < m" by (simp add: mu_p_mean_eq)
  moreover have "mu_p_mean ! itheta \<in> set mu_p_mean"
    using assms by (intro nth_mem) (simp add: length_mu_p_mean)
  ultimately show ?thesis by blast
qed

text \<open>At phase 0 every cell direction has a positive first coordinate, at phase 1/2 a negative one.\<close>

lemma cell_point_x_phase_0:
  assumes "itheta < 10"
  shows "0 < cell_point 0 iphi itheta ! 0"
  using mu_p_mean_pos[OF assms] by (simp add: cell_point_x)

lemma cell_point_x_phase_half:
  assumes "itheta < 10"
  shows "\<not> 0 < cell_point (1 / 2) iphi itheta ! 0"
  using mu_p_mean_pos[OF assms] by (simp add: cell_point_x)

lemma fits_samples_two_faced_field: "fits_samples two_faced_field"
  by (simp add: fits_samples_def two_faced_field_def field_shape_def list_all_iff)

lemma build_two_faced_grid:
  "build_interpolator two_faced_field grid_lon grid_lat grid_intensity =
     Inr (\<lambda>p. replicate 1 (replicate (length low_mus) (if 0 < p ! 0 then 1 else 2)))"
proof -
  have r: "length (shape grid_lon) = 1 \<or> length (shape grid_lon) = 2"
    "length (shape grid_lat) = 1 \<or> length (shape grid_lat) = 2"
    "length (shape grid_intensity) = 3 \<or> length (shape grid_intensity) = 4"
    and l: "length (data grid_lon) = 4" "length (data grid_lat) = 4"
    by (simp_all add: grid_lon_def grid_lat_def grid_intensity_def)
  obtain pts where pts: "length pts = 4"
    "build_interpolator two_faced_field grid_lon grid_lat grid_intensity =
       two_faced_field pts (flat grid_intensity) (1 / 10)"
    using build_interpolator_formatted[OF r l] by blast
  have sh: "shape (flat grid_intensity) = [4, 1, 3]"
    by (simp add: flat_def grid_intensity_def n_points_def wavelength_dim_def mu_dim_def)
  have len: "length low_mus = 3" by (simp add: low_mus_def)
  show ?thesis
    unfolding pts(2) len by (simp add: two_faced_field_def sh pts(1))
qed

lemma two_faced_rows:
  "wrap_phase_curve two_faced_field [0, 1 / 2] grid_lon grid_lat low_mus grid_intensity =
     Inr [[hemisphere_constant], [2 * hemisphere_constant]]"
proof -
  let ?f = "\<lambda>p::real list. replicate 1 (replicate (length low_mus) (if 0 < p ! 0 then 1 else 2 :: real))"
  have 2: "2 \<le> length low_mus" by (simp add: low_mus_def)
  have a: "calc_phase_curve 0 low_mus ?f = Inr (replicate 1 (1 * hemisphere_constant))"
    by (rule calc_phase_curve_const_on_cells[OF 2]) (simp_all add: cell_point_x_phase_0)
  have b: "calc_phase_curve (1 / 2) low_mus ?f = Inr (replicate 1 (2 * hemisphere_constant))"
    by (rule calc_phase_curve_const_on_cells[OF 2]) (simp_all add: cell_point_x_phase_half)
  show ?thesis
    unfolding wrap_phase_curve_def build_two_faced_grid bindE_Inr
    using a b by simp
qed

subsection \<open>A single mu value, and two or more\<close>

text \<open>
  With fewer than two mu values and at least one phase the entry point returns no
  matrix, whatever the interpolator; when the interpolator is built, the error is the
  IndexError of the first cell.
\<close>

lemma wrap_phase_curve_single_mu:
  assumes "length mus \<le> 1" "build_interpolator RBF lon lat intensity = Inr f"
  shows "wrap_phase_curve RBF (phase # phases) lon lat mus intensity = Inl IndexError"
  by (simp add: wrap_phase_curve_def assms(2) calc_phase_curve_single_mu[OF assms(1)])

lemma wrap_phase_curve_single_mu_no_rows:
  assumes "length mus \<le> 1"
  shows "wrap_phase_curve RBF (phase # phases) lon lat mus intensity \<noteq> Inr rows"
proof (cases "build_interpolator RBF lon lat intensity")
  case (Inl e)
  then show ?thesis by (simp add: wrap_phase_curve_def)
next
  case (Inr f)
  then show ?thesis using wrap_phase_curve_single_mu[OF assms Inr] by simp
qed

lemma flat_one_bin_intensity: "shape (flat one_bin_intensity) = [4, 1, 1]"
  by (simp add: flat_def one_bin_intensity_def n_points_def wavelength_dim_def mu_dim_def)

lemma one_bin_points:
  "\<exists>pts. length pts = 4 \<and>
     build_interpolator RBF grid_lon grid_lat one_bin_intensity =
       RBF pts (flat one_bin_intensity) (1 / 10)"
proof -
  have r: "length (shape grid_lon) = 1 \<or> length (shape grid_lon) = 2"
    "length (shape grid_lat) = 1 \<or> length (shape grid_lat) = 2"
    "length (shape one_bin_intensity) = 3 \<or> length (shape one_bin_intensity) = 4"
    and l: "length (data grid_lon) = 4" "length (data grid_lat) = 4"
    by (simp_all add: grid_lon_def grid_lat_def one_bin_intensity_def)
  show ?thesis by (rule build_interpolator_formatted[OF r l])
qed

lemma build_first_sample_one_bin:
  "build_interpolator first_sample_field grid_lon grid_lat one_bin_intensity = Inr (\<lambda>p. [[1]])"
proof -
  obtain pts where pts: "length pts = 4"
    "build_interpolator first_sample_field grid_lon grid_lat one_bin_intensity =
       first_sample_field pts (flat one_bin_intensity) (1 / 10)"
    using one_bin_points by blast
  have "first_sample_field pts (flat one_bin_intensity) (1 / 10) =
          Inr (\<lambda>p. replicate (shape (flat one_bin_intensity) ! 1)
                     (replicate (shape (flat one_bin_intensity) ! 2) 1))"
  proof (rule first_sample_field_const)
    show "length (shape (flat one_bin_intensity)) = 3"
      and "shape (flat one_bin_intensity) ! 0 = length pts" and "0 < length pts"
      by (simp_all add: flat_one_bin_intensity pts(1))
    show "length (data (flat one_bin_intensity)) = prod_list (shape (flat one_bin_intensity))"
      unfolding flat_one_bin_intensity by (simp add: flat_simps(1) one_bin_intensity_def)
    show "list_all (\<lambda>v. v = 1) (data (flat one_bin_intensity))"
      by (simp add: flat_simps(1) one_bin_intensity_def list_all_iff)
  qed
  then show ?thesis unfolding pts(2) by (simp add: flat_one_bin_intensity)
qed

lemma build_two_faced_one_bin:
  "build_interpolator two_faced_field grid_lon grid_lat one_bin_intensity =
     Inr (\<lambda>p. [[if 0 < p ! 0 then 1 else 2]])"
proof -
  obtain pts where pts: "length pts = 4"
    "build_interpolator two_faced_field grid_lon grid_lat one_bin_intensity =
       two_faced_field pts (flat one_bin_intensity) (1 / 10)"
    using one_bin_points by blast
  show ?thesis unfolding pts(2)
    by (simp add: two_faced_field_def flat_one_bin_intensity pts(1))
qed

text \<open>With at least two mu values: the flux of a constant field, and the shape of the matrix.\<close>

lemma constant_field_flux:
  assumes "2 \<le> length mus"
    and "build_interpolator RBF lon lat intensity =
           Inr (\<lambda>p. replicate N (replicate (length mus) c))"
  shows "wrap_phase_curve RBF phases lon lat mus intensity =
           Inr (replicate (length phases) (replicate N (c * hemisphere_constant)))"
  unfolding wrap_phase_curve_def assms(2) bindE_Inr
  by (rule mapE_const) (rule calc_phase_curve_const[OF assms(1)], rule refl)

lemma matrix_shape_two_bins:
  assumes "2 \<le> length mus" "build_interpolator RBF lon lat intensity = Inr f"
    and "field_shape f N (length mus)"
  shows "\<exists>rows. wrap_phase_curve RBF phases lon lat mus intensity = Inr rows \<and>
           length rows = length phases \<and>
           (\<forall>k<length phases. calc_phase_curve (phases ! k) mus f = Inr (rows ! k) \<and>
                               length (rows ! k) = N)"
  using rows_of_shaped_field[OF assms(1,3), of phases]
  by (simp add: wrap_phase_curve_def assms(2))

section \<open>The claims\<close>

subsection \<open>C1: clamping at the ends of the sample mu range\<close>

text \<open>
  C1 says that a quadrature centre at or below the smallest sample mu uses the first mu
  bin unmodified, and one above the largest uses the last. The lookup appends one entry
  per inner-loop pass for a clamped centre, so with three sample mus the lists are no
  longer indexed by the centre. With sample mus 0.1, 0.2, 0.3 the last centre 0.05 is
  below the smallest sample mu, the first bin holds 10, and the cell of index 9 reads the
  last bin, 30.
\<close>

theorem clamped_centre_reads_wrong_bin:
  "sorted_wrt (<) low_mus \<and>
   mu_p_mean ! 9 = 1 / 20 \<and> mu_p_mean ! 9 \<le> low_mus ! 0 \<and>
   slice_mu linear_interp 0 = Inr [10] \<and>
   I_use low_mus (fst (lookup_table low_mus)) (snd (lookup_table low_mus)) linear_interp 9 = Inr [30]"
  unfolding lookup_table_low_mus
  by (simp add: I_use_def py_index_def slice_mu_def linear_interp_def mu_p_mean_eq low_mus_def)

subsection \<open>C2: the shape error\<close>

text \<open>
  C2 says that inconsistent flattened sizes raise the shape error. They do not: with one
  longitude, four latitudes and four intensity blocks the ranks are accepted, the
  formatting step returns the arrays as they are, numpy broadcasts the single longitude
  and the entry point returns a flux.
\<close>

theorem inconsistent_sizes_counterexample:
  "length (data single_lon) = 1 \<and> length (data four_lat) = 4 \<and>
   accepted_ranks single_lon four_lat four_intensity \<and>
   format_input single_lon four_lat four_intensity = Inr (single_lon, four_lat, four_intensity) \<and>
   wrap_phase_curve first_sample_field [0] single_lon four_lat low_mus four_intensity =
     Inr [[hemisphere_constant]]"
proof -
  have r: "length (shape single_lon) = 1 \<or> length (shape single_lon) = 2"
    "length (shape four_lat) = 1 \<or> length (shape four_lat) = 2"
    "length (shape four_intensity) = 3 \<or> length (shape four_intensity) = 4"
    and l: "length (data single_lon) = 4 \<or> length (data single_lon) = 1" "length (data four_lat) = 4"
    by (simp_all add: single_lon_def four_lat_def four_intensity_def)
  have a: "accepted_ranks single_lon four_lat four_intensity"
    using r by (simp add: accepted_ranks_def)
  have f: "format_input single_lon four_lat four_intensity = Inr (single_lon, four_lat, four_intensity)"
    by (simp add: format_input_def flatten_grid_def flatten_intensity_def single_lon_def four_lat_def
        four_intensity_def)
  obtain pts where pts: "length pts = 4"
    "build_interpolator first_sample_field single_lon four_lat four_intensity =
       first_sample_field pts (flat four_intensity) (1 / 10)"
    using build_interpolator_broadcast[OF r l] by blast
  have sh: "shape four_intensity ! 1 = 1" "shape four_intensity ! 2 = length low_mus"
    by (simp_all add: four_intensity_def low_mus_def)
  have "first_sample_field pts four_intensity (1 / 10) =
          Inr (\<lambda>p. replicate (shape four_intensity ! 1) (replicate (shape four_intensity ! 2) 1))"
    by (rule first_sample_field_const)
      (simp_all add: four_intensity_def pts(1) list_all_iff)
  then have b: "build_interpolator first_sample_field single_lon four_lat four_intensity =
          Inr (\<lambda>p. replicate 1 (replicate (length low_mus) 1))"
    unfolding sh pts(2) flat_four_intensity .
  have 2: "2 \<le> length low_mus" by (simp add: low_mus_def)
  have "calc_phase_curve 0 low_mus (\<lambda>p. replicate 1 (replicate (length low_mus) 1)) =
          Inr (replicate 1 (1 * hemisphere_constant))"
    by (rule calc_phase_curve_const[OF 2]) (rule refl)
  then have w: "wrap_phase_curve first_sample_field [0] single_lon four_lat low_mus four_intensity =
     Inr [[hemisphere_constant]]"
    by (simp add: wrap_phase_curve_def b)
  have "length (data single_lon) = 1" "length (data four_lat) = 4"
    by (simp_all add: single_lon_def four_lat_def)
  with a f w show ?thesis by blast
qed

text \<open>
  C2 as amended: the formatting step raises, and then only IndexError, exactly when a
  rank is not accepted; in that case the entry point raises IndexError and returns
  nothing; with accepted ranks the formatting step returns the flattened arrays whatever
  their sizes.
\<close>

theorem shape_error_iff_bad_rank:
  "(format_input lon lat intensity = Inl e \<longleftrightarrow>
      e = IndexError \<and> \<not> accepted_ranks lon lat intensity) \<and>
   (\<not> accepted_ranks lon lat intensity \<longrightarrow>
      wrap_phase_curve RBF phases lon lat mus intensity = Inl IndexError) \<and>
   (accepted_ranks lon lat intensity \<longrightarrow>
      (\<exists>lon' lat'. format_input lon lat intensity = Inr (lon', lat', flat intensity) \<and>
         data lon' = data lon \<and> data lat' = data lat))"
  using format_input_error[of lon lat intensity e] wrap_phase_curve_bad_rank[of lon lat intensity RBF phases mus]
    format_input_accepted[of lon lat intensity]
  unfolding accepted_ranks_def by blast

theorem shape_error_iff_bad_rank_witness:
  "\<not> accepted_ranks cube_lon grid_lat grid_intensity \<and>
   wrap_phase_curve first_sample_field [0] cube_lon grid_lat low_mus grid_intensity = Inl IndexError"
proof -
  have h: "\<not> accepted_ranks cube_lon grid_lat grid_intensity"
    by (simp add: accepted_ranks_def cube_lon_def)
  from shape_error_iff_bad_rank[of cube_lon grid_lat grid_intensity IndexError first_sample_field "[0]" low_mus] h
  show ?thesis by blast
qed

subsection \<open>C3: linear interpolation inside the sample mu range\<close>

text \<open>
  C3 says that a centre strictly inside the sample mu range is interpolated linearly in
  its bracket. With sample mus 0.1, 0.2, 0.3 the centre 0.25 of index 7 lies in the
  bracket (1, 2), where the intensities 20 and 30 interpolate to 25; the cell of index 7
  reads the last bin unmodified, 30.
\<close>

theorem interior_centre_not_interpolated:
  "sorted_wrt (<) low_mus \<and>
   mu_p_mean ! 7 = 1 / 4 \<and> low_mus ! 0 < mu_p_mean ! 7 \<and> mu_p_mean ! 7 < low_mus ! 2 \<and>
   low_mus ! 1 < mu_p_mean ! 7 \<and> mu_p_mean ! 7 \<le> low_mus ! 2 \<and>
   slice_mu linear_interp 1 = Inr [20] \<and> slice_mu linear_interp 2 = Inr [30] \<and>
   20 + (30 - 20) * (mu_p_mean ! 7 - low_mus ! 1) / (low_mus ! 2 - low_mus ! 1) = 25 \<and>
   I_use low_mus (fst (lookup_table low_mus)) (snd (lookup_table low_mus)) linear_interp 7 = Inr [30]"
  unfolding lookup_table_low_mus
  by (simp add: I_use_def py_index_def slice_mu_def linear_interp_def mu_p_mean_eq low_mus_def)

subsection \<open>C4: an isotropic field\<close>

text \<open>
  C4 says that an intensity that is the same scalar everywhere gives, at every phase, that
  scalar times the sum over the hundred quadrature cells of mu centre times mu width
  times azimuth width. With a single mu bin it does not. The clamp branches of the lookup
  stand inside the loop over the brackets, which has no pass for one mu value, so both
  lists stay empty and the first cell raises IndexError. The grid input with one mu bin
  and every intensity one has accepted ranks and consistent sizes, and the stand-in
  interpolator answers one everywhere; the flux of that field raises at every phase, and
  the entry point returns no matrix for any non-empty phase list, whatever the
  interpolator. With two or more mu values the flux of a constant field is as C4 says
  (\<open>constant_field_flux\<close>).
\<close>

theorem isotropic_single_bin_raises:
  "list_all (\<lambda>v. v = 1) (data one_bin_intensity) \<and>
   accepted_ranks grid_lon grid_lat one_bin_intensity \<and>
   length (data grid_lon) = n_points one_bin_intensity \<and>
   length (data grid_lat) = n_points one_bin_intensity \<and>
   length (data one_bin_intensity) = prod_list (shape one_bin_intensity) \<and>
   length one_mu = mu_dim one_bin_intensity \<and> sorted_wrt (<) one_mu \<and>
   build_interpolator first_sample_field grid_lon grid_lat one_bin_intensity = Inr (\<lambda>p. [[1]]) \<and>
   calc_phase_curve phase one_mu (\<lambda>p. [[1]]) = Inl IndexError \<and>
   wrap_phase_curve first_sample_field [0, 1 / 4] grid_lon grid_lat one_mu one_bin_intensity =
     Inl IndexError \<and>
   wrap_phase_curve RBF (phase # phases) grid_lon grid_lat one_mu one_bin_intensity \<noteq> Inr rows"
proof -
  have l: "length one_mu \<le> 1" by (simp add: one_mu_def)
  have a: "list_all (\<lambda>v. v = 1) (data one_bin_intensity)"
    "accepted_ranks grid_lon grid_lat one_bin_intensity"
    "length (data grid_lon) = n_points one_bin_intensity"
    "length (data grid_lat) = n_points one_bin_intensity"
    "length (data one_bin_intensity) = prod_list (shape one_bin_intensity)"
    "length one_mu = mu_dim one_bin_intensity" "sorted_wrt (<) one_mu"
    by (simp_all add: one_bin_intensity_def grid_lon_def grid_lat_def one_mu_def accepted_ranks_def
        n_points_def mu_dim_def list_all_iff)
  note b = build_first_sample_one_bin
  have c: "calc_phase_curve phase one_mu (\<lambda>p. [[1]]) = Inl IndexError"
    by (rule calc_phase_curve_single_mu[OF l])
  have w: "wrap_phase_curve first_sample_field [0, 1 / 4] grid_lon grid_lat one_mu one_bin_intensity =
     Inl IndexError"
    by (rule wrap_phase_curve_single_mu[OF l b])
  have n: "wrap_phase_curve RBF (phase # phases) grid_lon grid_lat one_mu one_bin_intensity \<noteq> Inr rows"
    by (rule wrap_phase_curve_single_mu_no_rows[OF l])
  from a b c w n show ?thesis by blast
qed

subsection \<open>C5: the quadrature grid\<close>

text \<open>
  C5: ten mu bins of width 1/10 from 1 down to 0 with centres at the midpoints and widths
  the absolute edge differences, ten azimuth bins of width 2 pi / 10 from 0 to 2 pi, one
  hundred cells, and each cell weighs its intensity and mu centre by mu width times
  azimuth width. The grid constants take no argument: neither the phase nor the samples.
\<close>

theorem quadrature_grid:
  "mu_p_grid_bord = [1, 9/10, 8/10, 7/10, 6/10, 5/10, 4/10, 3/10, 2/10, 1/10, 0] \<and>
   sorted_wrt (>) mu_p_grid_bord \<and>
   mu_p_mean = [19/20, 17/20, 15/20, 13/20, 11/20, 9/20, 7/20, 5/20, 3/20, 1/20] \<and>
   del_mu_p = replicate 10 (1/10) \<and>
   phi_p_grid_bord = map (\<lambda>k. real k * (2 * pi / 10)) [0..<11] \<and>
   phi_p_mean = map (\<lambda>k. (real k + 1/2) * (2 * pi / 10)) [0..<10] \<and>
   del_phi_p = replicate 10 (2 * pi / 10) \<and>
   length phi_p_mean * length mu_p_mean = 100 \<and>
   (\<forall>i<10. mu_p_mean ! i = (mu_p_grid_bord ! i + mu_p_grid_bord ! (i + 1)) / 2 \<and>
            del_mu_p ! i = \<bar>mu_p_grid_bord ! (i + 1) - mu_p_grid_bord ! i\<bar> \<and>
            phi_p_mean ! i = (phi_p_grid_bord ! i + phi_p_grid_bord ! (i + 1)) / 2 \<and>
            del_phi_p ! i = phi_p_grid_bord ! (i + 1) - phi_p_grid_bord ! i) \<and>
   (\<forall>iphi<10. \<forall>itheta<10.
      cell_dF mus tab f phase iphi itheta =
        bindE (I_use mus (fst tab) (snd tab) (f (cell_point phase iphi itheta)) itheta)
          (\<lambda>I. Inr (map (\<lambda>v. v * (mu_p_mean ! itheta) * ((1/10) * (2 * pi / 10))) I)))"
proof -
  have a: "mu_p_mean = [19/20, 17/20, 15/20, 13/20, 11/20, 9/20, 7/20, 5/20, 3/20, 1/20]"
    by (simp add: mu_p_mean_eq)
  have b: "phi_p_grid_bord = map (\<lambda>k. real k * (2 * pi / 10)) [0..<11]"
    by (simp add: phi_p_grid_bord_eq)
  have c: "phi_p_mean = map (\<lambda>k. (real k + 1/2) * (2 * pi / 10)) [0..<10]"
    by (simp add: phi_p_mean_eq field_simps)
  have d: "del_phi_p = replicate 10 (2 * pi / 10)"
    by (simp add: del_phi_p_eq)
  have s: "sorted_wrt (>) mu_p_grid_bord"
    by (simp add: mu_p_grid_bord_eq)
  have e: "mu_p_mean ! i = (mu_p_grid_bord ! i + mu_p_grid_bord ! (i + 1)) / 2 \<and>
            del_mu_p ! i = \<bar>mu_p_grid_bord ! (i + 1) - mu_p_grid_bord ! i\<bar> \<and>
            phi_p_mean ! i = (phi_p_grid_bord ! i + phi_p_grid_bord ! (i + 1)) / 2 \<and>
            del_phi_p ! i = phi_p_grid_bord ! (i + 1) - phi_p_grid_bord ! i" if "i < 10" for i
  proof -
    have len: "length mu_p_grid_bord = 11" "length phi_p_grid_bord = 11"
      by (simp_all add: mu_p_grid_bord_def phi_p_grid_bord_def linspace_def)
    have i: "i + 1 < length mu_p_grid_bord" "i + 1 < length phi_p_grid_bord"
      "i < length (np_diff mu_p_grid_bord)"
      using that len by (simp_all add: length_np_diff)
    have desc: "mu_p_grid_bord ! (i + 1) < mu_p_grid_bord ! i"
      using s i(1) by (simp add: sorted_wrt_iff_nth_less)
    show ?thesis using desc i(3)
      by (simp add: mu_p_mean_def del_mu_p_def phi_p_mean_def del_phi_p_def
          midpoints_nth[OF i(1)] midpoints_nth[OF i(2)] np_diff_nth[OF i(1)] np_diff_nth[OF i(2)])
  qed
  have w: "cell_dF mus tab f phase iphi itheta =
        bindE (I_use mus (fst tab) (snd tab) (f (cell_point phase iphi itheta)) itheta)
          (\<lambda>I. Inr (map (\<lambda>v. v * (mu_p_mean ! itheta) * ((1/10) * (2 * pi / 10))) I))"
    if "iphi < 10" "itheta < 10" for iphi itheta
    using that by (simp add: cell_dF_def del_mu_p_eq del_phi_p_eq mult.assoc)
  show ?thesis
    using a b c d s e w mu_p_grid_bord_eq del_mu_p_eq length_mu_p_mean length_phi_p_mean
    by simp
qed

theorem quadrature_grid_witness:
  "(0::nat) < 10 \<and>
   cell_dF low_mus (lookup_table low_mus) (\<lambda>p. linear_interp) 0 0 0 =
     Inr [30 * (19 / 20) * ((1 / 10) * (2 * pi / 10))]"
proof -
  have "cell_dF low_mus (lookup_table low_mus) (\<lambda>p. linear_interp) 0 0 0 =
        bindE (I_use low_mus (fst (lookup_table low_mus)) (snd (lookup_table low_mus))
                 ((\<lambda>p. linear_interp) (cell_point 0 0 0)) 0)
          (\<lambda>I. Inr (map (\<lambda>v. v * (mu_p_mean ! 0) * ((1/10) * (2 * pi / 10))) I))"
    using quadrature_grid[of low_mus "lookup_table low_mus" "\<lambda>p. linear_interp" 0] by simp
  moreover have "I_use low_mus (fst (lookup_table low_mus)) (snd (lookup_table low_mus))
                   linear_interp 0 = Inr [30]"
    unfolding lookup_table_low_mus
    by (simp add: I_use_def py_index_def slice_mu_def linear_interp_def)
  ultimately show ?thesis by (simp add: mu_p_mean_eq)
qed

subsection \<open>C6: the rotation matrix\<close>

text \<open>
  C6: for every phase \<open>p\<close> the matrix is the axis realignment (which sends \<open>(x, y, z)\<close> to
  \<open>(z, y, -x)\<close>) times the rotation about the x axis by \<open>-2 pi p\<close>; applied to a direction
  it rotates first and realigns second; and it is orthonormal: its transpose is its
  inverse on both sides.
\<close>

theorem rotation_matrix:
  "rot_matrix p = dot axis_swap (rot_x (- 2 * pi * p)) \<and>
   dot axis_swap [[x], [y], [z]] = [[z], [y], [- x]] \<and>
   dot (rot_x r) [[x], [y], [z]] = [[x], [cos r * y - sin r * z], [sin r * y + cos r * z]] \<and>
   dot (rot_matrix p) [[x], [y], [z]] = dot axis_swap (dot (rot_x (- 2 * pi * p)) [[x], [y], [z]]) \<and>
   dot (transpose (rot_matrix p)) (rot_matrix p) = [[1, 0, 0], [0, 1, 0], [0, 0, 1]] \<and>
   dot (rot_matrix p) (transpose (rot_matrix p)) = [[1, 0, 0], [0, 1, 0], [0, 0, 1]]"
proof -
  define r' where "r' = - 2 * pi * p"
  have sc: "sin r' * sin r' + cos r' * cos r' = 1" "cos r' * cos r' + sin r' * sin r' = 1"
    using sin_cos_squared_add[of r'] by (simp_all add: power2_eq_square add.commute)
  have 1: "rot_matrix p = dot axis_swap (rot_x (- 2 * pi * p))"
    by (simp add: rot_matrix_def Let_def mult.commute mult.left_commute)
  have 2: "dot axis_swap [[x], [y], [z]] = [[z], [y], [- x]]"
    by (simp add: axis_swap_def dot_3x1)
  have 3: "dot (rot_x r) [[x], [y], [z]] = [[x], [cos r * y - sin r * z], [sin r * y + cos r * z]]"
    by (simp add: rot_x_def dot_3x1)
  have 4: "dot (rot_matrix p) [[x], [y], [z]] = dot axis_swap (dot (rot_x (- 2 * pi * p)) [[x], [y], [z]])"
    by (simp add: rot_matrix_eq axis_swap_def rot_x_def dot_3x1)
  have m: "rot_matrix p = [[0, sin r', cos r'], [0, cos r', - sin r'], [-1, 0, 0]]"
    by (simp add: rot_matrix_eq r'_def)
  have t: "transpose (rot_matrix p) = [[0, 0, -1], [sin r', cos r', 0], [cos r', - sin r', 0]]"
    by (simp add: m)
  have 5: "dot (transpose (rot_matrix p)) (rot_matrix p) = [[1, 0, 0], [0, 1, 0], [0, 0, 1]]"
    unfolding t unfolding m by (simp add: dot_3x3 sc)
  have 6: "dot (rot_matrix p) (transpose (rot_matrix p)) = [[1, 0, 0], [0, 1, 0], [0, 0, 1]]"
    unfolding t unfolding m by (simp add: dot_3x3 sc)
  from 1 2 3 4 5 6 show ?thesis by blast
qed

subsection \<open>C7: the shape of the output matrix\<close>

text \<open>
  C7 says that every valid input gives a matrix with one row per phase and one column per
  wavelength. An input with a single mu bin is valid (accepted ranks, consistent sizes,
  one strictly increasing mu value), and gives no matrix: with one mu value the loop over
  the brackets has no pass, both lookup lists stay empty, and the first cell of the first
  phase raises IndexError, for every field and every interpolator. With two or more mu
  values the matrix has the shape C7 says (\<open>matrix_shape_two_bins\<close>).
\<close>

theorem single_bin_returns_no_matrix:
  "accepted_ranks grid_lon grid_lat one_bin_intensity \<and>
   length (data grid_lon) = n_points one_bin_intensity \<and>
   length (data grid_lat) = n_points one_bin_intensity \<and>
   length (data one_bin_intensity) = prod_list (shape one_bin_intensity) \<and>
   length one_mu = mu_dim one_bin_intensity \<and> sorted_wrt (<) one_mu \<and>
   wrap_phase_curve two_faced_field [0, 1 / 2] grid_lon grid_lat one_mu one_bin_intensity =
     Inl IndexError \<and>
   calc_phase_curve phase [m] f = Inl IndexError \<and>
   wrap_phase_curve RBF (phase # phases) lon lat [m] intensity \<noteq> Inr rows"
proof -
  have l: "length one_mu \<le> 1" "length [m] \<le> 1" by (simp_all add: one_mu_def)
  have a: "accepted_ranks grid_lon grid_lat one_bin_intensity"
    "length (data grid_lon) = n_points one_bin_intensity"
    "length (data grid_lat) = n_points one_bin_intensity"
    "length (data one_bin_intensity) = prod_list (shape one_bin_intensity)"
    "length one_mu = mu_dim one_bin_intensity" "sorted_wrt (<) one_mu"
    by (simp_all add: one_bin_intensity_def grid_lon_def grid_lat_def one_mu_def accepted_ranks_def
        n_points_def mu_dim_def)
  have w: "wrap_phase_curve two_faced_field [0, 1 / 2] grid_lon grid_lat one_mu one_bin_intensity =
     Inl IndexError"
    by (rule wrap_phase_curve_single_mu[OF l(1) build_two_faced_one_bin])
  have c: "calc_phase_curve phase [m] f = Inl IndexError"
    by (rule calc_phase_curve_single_mu[OF l(2)])
  have n: "wrap_phase_curve RBF (phase # phases) lon lat [m] intensity \<noteq> Inr rows"
    by (rule wrap_phase_curve_single_mu_no_rows[OF l(2)])
  from a w c n show ?thesis by blast
qed

subsection \<open>C8: exchanging two phases\<close>

text \<open>
  C8: for every valid input and every two indices \<open>i\<close>, \<open>j\<close> of the phase list, the run
  on the list with entries \<open>i\<close> and \<open>j\<close> exchanged returns the rows of the original run
  with rows \<open>i\<close> and \<open>j\<close> exchanged and every other row unchanged; each row is the flux
  of its own phase over the one interpolator.
\<close>

theorem phase_swap:
  assumes "valid_input lon lat mus intensity" "fits_samples RBF"
    and "i < length phases" "j < length phases"
  shows "\<exists>f rows. build_interpolator RBF lon lat intensity = Inr f \<and>
           wrap_phase_curve RBF phases lon lat mus intensity = Inr rows \<and>
           wrap_phase_curve RBF (swap i j phases) lon lat mus intensity = Inr (swap i j rows) \<and>
           length rows = length phases \<and>
           swap i j rows ! i = rows ! j \<and> swap i j rows ! j = rows ! i \<and>
           (\<forall>k<length phases. k \<noteq> i \<and> k \<noteq> j \<longrightarrow> swap i j rows ! k = rows ! k) \<and>
           (\<forall>k<length phases. calc_phase_curve (phases ! k) mus f = Inr (rows ! k))"
proof -
  have vs: "valid_shapes lon lat mus intensity" and 2: "2 \<le> length mus"
    using assms(1) by (simp_all add: valid_input_def valid_shapes_def)
  obtain f where f: "build_interpolator RBF lon lat intensity = Inr f"
    "field_shape f (wavelength_dim intensity) (length mus)"
    using build_interpolator_fits[OF vs assms(2)] by blast
  obtain rows where rows: "mapE (\<lambda>phase. calc_phase_curve phase mus f) phases = Inr rows"
    "length rows = length phases"
    "\<forall>k<length phases. calc_phase_curve (phases ! k) mus f = Inr (rows ! k) \<and>
                        length (rows ! k) = wavelength_dim intensity"
    using rows_of_shaped_field[OF 2 f(2), of phases] by blast
  have w: "wrap_phase_curve RBF phases lon lat mus intensity = Inr rows"
    using f(1) rows(1) by (simp add: wrap_phase_curve_def)
  have s: "wrap_phase_curve RBF (swap i j phases) lon lat mus intensity = Inr (swap i j rows)"
    by (rule wrap_phase_curve_swap[OF w assms(3,4)])
  have i: "i < length rows" "j < length rows" using assms(3,4) rows(2) by simp_all
  have n: "swap i j rows ! i = rows ! j" "swap i j rows ! j = rows ! i"
    using i by (simp_all add: swap_nth)
  have o: "\<forall>k<length phases. k \<noteq> i \<and> k \<noteq> j \<longrightarrow> swap i j rows ! k = rows ! k"
    using i rows(2) by (simp add: swap_nth)
  from f(1) w s rows(2,3) n o show ?thesis by blast
qed

theorem phase_swap_witness:
  "valid_input grid_lon grid_lat low_mus grid_intensity \<and> fits_samples two_faced_field \<and>
   (0::nat) < length [0, 1 / 2 :: real] \<and> (1::nat) < length [0, 1 / 2 :: real] \<and>
   wrap_phase_curve two_faced_field [0, 1 / 2] grid_lon grid_lat low_mus grid_intensity =
     Inr [[pi], [2 * pi]] \<and>
   wrap_phase_curve two_faced_field [1 / 2, 0] grid_lon grid_lat low_mus grid_intensity =
     Inr [[2 * pi], [pi]]"
proof -
  have h: "(0::nat) < length [0, 1 / 2 :: real]" "(1::nat) < length [0, 1 / 2 :: real]"
    by simp_all
  have sw: "swap 0 1 [0, 1 / 2 :: real] = [1 / 2, 0]"
    by (simp add: swap_def)
  from phase_swap[OF valid_input_grid fits_samples_two_faced_field h]
  obtain rows where r:
    "wrap_phase_curve two_faced_field [0, 1 / 2] grid_lon grid_lat low_mus grid_intensity = Inr rows"
    "wrap_phase_curve two_faced_field (swap 0 1 [0, 1 / 2]) grid_lon grid_lat low_mus grid_intensity
       = Inr (swap 0 1 rows)"
    by blast
  have rows: "rows = [[pi], [2 * pi]]"
    using r(1) two_faced_rows by (simp add: hemisphere_constant_pi)
  have "wrap_phase_curve two_faced_field [1 / 2, 0] grid_lon grid_lat low_mus grid_intensity =
          Inr [[2 * pi], [pi]]"
    using r(2) unfolding sw rows by (simp add: swap_def)
  with r(1) rows h valid_input_grid fits_samples_two_faced_field show ?thesis by simp
qed

subsection \<open>C9: mu values that are not strictly increasing\<close>




subsection \<open>C10: the lookup lists are long enough for the quadrature loop\<close>

text \<open>
  C10: for strictly increasing mus of length at least two, every centre makes both lists
  grow by at least one entry, both lists have at least ten entries, and every read
  \<open>do_intp[itheta]\<close> and \<open>i_intps[itheta]\<close> of the quadrature loop is in range.
\<close>

theorem lookup_lists_cover_loop:
  assumes "sorted_wrt (<) mus" "2 \<le> length mus"
  shows "(\<forall>imu<10. \<forall>st. length (fst st) < length (fst (inner_loop mus (mu_p_mean ! imu) st)) \<and>
                         length (snd st) < length (snd (inner_loop mus (mu_p_mean ! imu) st))) \<and>
         10 \<le> length (fst (lookup_table mus)) \<and>
         10 \<le> length (snd (lookup_table mus)) \<and>
         (\<forall>itheta \<in> set [0..<length mu_p_mean].
            \<exists>d i. py_index (fst (lookup_table mus)) itheta = Inr d \<and>
                  py_index (snd (lookup_table mus)) itheta = Inr i)"
proof -
  have ne: "entries mus m \<noteq> []" for m by (rule entries_nonempty[OF assms(2)])
  have 1: "length (fst st) < length (fst (inner_loop mus m st)) \<and>
           length (snd st) < length (snd (inner_loop mus m st))" for m st
    using ne[of m] by (simp add: inner_loop_entries)
  have 2: "10 \<le> length (fst (lookup_table mus))" "10 \<le> length (snd (lookup_table mus))"
    using table_entries_length[OF assms(2)] by (simp_all add: lookup_table_entries)
  have 3: "\<exists>d i. py_index (fst (lookup_table mus)) itheta = Inr d \<and>
                  py_index (snd (lookup_table mus)) itheta = Inr i"
    if "itheta \<in> set [0..<length mu_p_mean]" for itheta
  proof -
    from that have "itheta < 10" by (simp add: length_mu_p_mean)
    with 2 show ?thesis by (simp add: py_index_def)
  qed
  from 1 2 3 show ?thesis by blast
qed

theorem lookup_lists_cover_loop_witness:
  "sorted_wrt (<) low_mus \<and> 2 \<le> length low_mus \<and>
   10 \<le> length (fst (lookup_table low_mus)) \<and> 10 \<le> length (snd (lookup_table low_mus))"
proof -
  have h: "sorted_wrt (<) low_mus" "2 \<le> length low_mus" by (simp_all add: low_mus_def)
  from lookup_lists_cover_loop[OF h] h show ?thesis by blast
qed

end
